theory Spec2Isabelle
  imports Main
begin

section \<open>Values of the host environment\<close>

text \<open>
  The exceptions the code can raise: reading a property of \<open>undefined\<close> or \<open>null\<close>
  (\<open>TypeError\<close>), and the two exceptions of a DOM token list, for an empty token
  (\<open>SyntaxError\<close>) and for a token that contains white space (\<open>InvalidCharacterError\<close>).
  A function that can raise returns \<open>error + 'a\<close>: \<open>Inl e\<close> when it throws \<open>e\<close>, and then
  the state reached before the throw is not tracked.
\<close>

datatype error = TypeError | SyntaxError | InvalidCharacterError

text \<open>
  The numbers the controller keeps are indices: integers, or \<open>NaN\<close> when \<open>parseInt\<close> reads
  a row that carries no index. Integers are unbounded here (a double is exact below
  \<open>2 ^ 53\<close>, far above any row count).
\<close>

datatype jsnum = NaN | Num int

fun js_plus :: "jsnum \<Rightarrow> int \<Rightarrow> jsnum" where
  "js_plus NaN d = NaN"
| "js_plus (Num a) d = Num (a + d)"

fun Math_max :: "jsnum \<Rightarrow> jsnum \<Rightarrow> jsnum" where
  "Math_max (Num a) (Num b) = Num (max a b)"
| "Math_max a b = NaN"

fun Math_min :: "jsnum \<Rightarrow> jsnum \<Rightarrow> jsnum" where
  "Math_min (Num a) (Num b) = Num (min a b)"
| "Math_min a b = NaN"

text \<open>\<open>s.split(sep)\<close> for a separator of one character: never the empty array.\<close>

fun str_split :: "char \<Rightarrow> string \<Rightarrow> string list" where
  "str_split sep [] = [[]]"
| "str_split sep (c # cs) =
     (if c = sep then [] # str_split sep cs
      else (case str_split sep cs of
              [] \<Rightarrow> [[c]]
            | w # ws \<Rightarrow> (c # w) # ws))"

text \<open>
  \<open>xs[n]\<close> on an array: the element's position, which stands for the reference to the
  element, or \<open>None\<close> for \<open>undefined\<close> (the index is \<open>NaN\<close>, negative or past the end).
\<close>

definition at_index :: "'a list \<Rightarrow> jsnum \<Rightarrow> nat option" where
  "at_index xs n =
     (case n of
        NaN \<Rightarrow> None
      | Num i \<Rightarrow> if 0 \<le> i \<and> i < int (length xs) then Some (nat i) else None)"

text \<open>
  A relative index of \<open>Array.prototype.slice\<close>: a negative one counts from the end, and
  both are clamped to the array.
\<close>

definition relative_index :: "nat \<Rightarrow> int \<Rightarrow> nat" where
  "relative_index len i =
     (if i < 0 then nat (max (int len + i) 0) else nat (min i (int len)))"

definition slice :: "'a list \<Rightarrow> int \<Rightarrow> int \<Rightarrow> 'a list" where
  "slice xs start end =
     (let k = relative_index (length xs) start;
          final = relative_index (length xs) end
      in take (final - k) (drop k xs))"

text \<open>
  \<open>xs.forEach((x, index) => ...)\<close> where the callback mutates \<open>x\<close>: the callback returns
  the element as it leaves it, and the first exception ends the loop.
\<close>

fun forEach_from :: "nat \<Rightarrow> ('a \<Rightarrow> nat \<Rightarrow> error + 'a) \<Rightarrow> 'a list \<Rightarrow> error + 'a list" where
  "forEach_from i f [] = Inr []"
| "forEach_from i f (x # xs) =
     (case f x i of
        Inl e \<Rightarrow> Inl e
      | Inr y \<Rightarrow>
          (case forEach_from (Suc i) f xs of
             Inl e \<Rightarrow> Inl e
           | Inr ys \<Rightarrow> Inr (y # ys)))"

definition forEach :: "('a \<Rightarrow> nat \<Rightarrow> error + 'a) \<Rightarrow> 'a list \<Rightarrow> error + 'a list" where
  "forEach f xs = forEach_from 0 f xs"

section \<open>The class list of an element\<close>

text \<open>
  A \<open>DOMTokenList\<close> is an ordered set of tokens. \<open>add\<close>, \<open>remove\<close> and \<open>toggle\<close> validate
  their tokens first: the empty string raises \<open>SyntaxError\<close>, a token with ASCII white
  space raises \<open>InvalidCharacterError\<close>.
\<close>

definition ascii_whitespace :: "char \<Rightarrow> bool" where
  "ascii_whitespace c =
     (c = CHR 0x09 \<or> c = CHR 0x0A \<or> c = CHR 0x0C \<or> c = CHR 0x0D \<or> c = CHR '' '')"

definition validate_token :: "string \<Rightarrow> error option" where
  "validate_token t =
     (if t = [] then Some SyntaxError
      else if list_ex ascii_whitespace t then Some InvalidCharacterError
      else None)"

fun validate_tokens :: "string list \<Rightarrow> error option" where
  "validate_tokens [] = None"
| "validate_tokens (t # ts) =
     (case validate_token t of
        Some e \<Rightarrow> Some e
      | None \<Rightarrow> validate_tokens ts)"

definition classList_add :: "string \<Rightarrow> string list \<Rightarrow> error + string list" where
  "classList_add t cl =
     (case validate_token t of
        Some e \<Rightarrow> Inl e
      | None \<Rightarrow> Inr (if t \<in> set cl then cl else cl @ [t]))"

text \<open>\<open>classList.remove(...tokens)\<close>: every token is validated before any is removed.\<close>

definition classList_remove :: "string list \<Rightarrow> string list \<Rightarrow> error + string list" where
  "classList_remove ts cl =
     (case validate_tokens ts of
        Some e \<Rightarrow> Inl e
      | None \<Rightarrow> Inr (filter (\<lambda>c. c \<notin> set ts) cl))"

text \<open>\<open>classList.toggle(t, force)\<close>: with \<open>force\<close> given it adds or removes, it never flips.\<close>

definition classList_toggle :: "string \<Rightarrow> bool \<Rightarrow> string list \<Rightarrow> error + string list" where
  "classList_toggle t force cl =
     (case validate_token t of
        Some e \<Rightarrow> Inl e
      | None \<Rightarrow>
          Inr (if t \<in> set cl then (if force then cl else removeAll t cl)
               else (if force then cl @ [t] else cl)))"

section \<open>Rows and the controller\<close>

text \<open>
  A row element, as far as the code reads and writes it. \<open>dataset.index\<close> holds the decimal
  string of the position that \<open>initialize\<close> stores; \<open>Math.min\<close>, \<open>Math.max\<close> and \<open>parseInt\<close>
  read that number back, so the field is kept as the number. \<open>dataset.marked\<close> is the
  string the code writes and compares.
\<close>

record row =
  dataset_index :: int
  dataset_marked :: string
  tabIndex :: int
  classList :: "string list"

record controller =
  rows :: "row list"
  selectedIndex :: jsnum
  lastMarkedIndex :: int
  selectedCls :: "string list"
  markedCls :: "string list"

fun addCls :: "row \<Rightarrow> string list \<Rightarrow> error + row" where
  "addCls el [] = Inr el"
| "addCls el (cls # clsList) =
     (case classList_add cls (classList el) of
        Inl e \<Rightarrow> Inl e
      | Inr cl \<Rightarrow> addCls (el\<lparr>classList := cl\<rparr>) clsList)"

fun removeCls :: "row \<Rightarrow> string list \<Rightarrow> error + row" where
  "removeCls el [] = Inr el"
| "removeCls el (cls # clsList) =
     (case classList_remove [cls] (classList el) of
        Inl e \<Rightarrow> Inl e
      | Inr cl \<Rightarrow> removeCls (el\<lparr>classList := cl\<rparr>) clsList)"

text \<open>The loop of \<open>toggleMark\<close>: \<open>clsList.forEach(cls => row.classList.toggle(cls, force))\<close>.\<close>

fun toggleCls :: "row \<Rightarrow> string list \<Rightarrow> bool \<Rightarrow> error + row" where
  "toggleCls el [] force = Inr el"
| "toggleCls el (cls # clsList) force =
     (case classList_toggle cls force (classList el) of
        Inl e \<Rightarrow> Inl e
      | Inr cl \<Rightarrow> toggleCls (el\<lparr>classList := cl\<rparr>) clsList force)"

text \<open>
  \<open>updateNavigation\<close>: \<open>this.rows\<close> and \<open>this.selectedIndex\<close> are never \<open>undefined\<close>, so the
  guard is the test of \<open>this.rows[this.selectedIndex]\<close>. Scrolling changes no state of
  the controller or of a row.
\<close>

definition updateNavigation :: "controller \<Rightarrow> error + controller" where
  "updateNavigation s =
     (case forEach (\<lambda>row _. removeCls row (selectedCls s)) (rows s) of
        Inl e \<Rightarrow> Inl e
      | Inr rs \<Rightarrow>
          (case at_index rs (selectedIndex s) of
             None \<Rightarrow> Inr (s\<lparr>rows := rs\<rparr>)
           | Some r \<Rightarrow>
               (case addCls (rs ! r) (selectedCls s) of
                  Inl e \<Rightarrow> Inl e
                | Inr el \<Rightarrow> Inr (s\<lparr>rows := rs[r := el]\<rparr>))))"

definition handleNavigation :: "string \<Rightarrow> controller \<Rightarrow> error + controller" where
  "handleNavigation k s =
     (let newIndex =
            (if k = ''ArrowUp'' then Math_max (Num 0) (js_plus (selectedIndex s) (- 1))
             else Math_min (Num (int (length (rows s)) - 1)) (js_plus (selectedIndex s) 1))
      in updateNavigation (s\<lparr>selectedIndex := newIndex\<rparr>))"

definition clearAllMarks :: "controller \<Rightarrow> error + controller" where
  "clearAllMarks s =
     (case forEach (\<lambda>row _. removeCls (row\<lparr>dataset_marked := ''false''\<rparr>) (markedCls s)) (rows s) of
        Inl e \<Rightarrow> Inl e
      | Inr rs \<Rightarrow> Inr (s\<lparr>rows := rs\<rparr>))"

text \<open>
  The row argument of the marking functions is a reference to an element of \<open>this.rows\<close>,
  or \<open>undefined\<close>: the position that \<open>at_index\<close> returns, or \<open>None\<close>.
\<close>

definition toggleMark :: "nat option \<Rightarrow> controller \<Rightarrow> error + controller" where
  "toggleMark row s =
     (case row of
        None \<Rightarrow> Inr s
      | Some r \<Rightarrow>
          (let el = rows s ! r;
               isMarked = (dataset_marked el = ''true'')
           in case toggleCls (el\<lparr>dataset_marked := (if \<not> isMarked then ''true'' else ''false'')\<rparr>)
                     (markedCls s) (\<not> isMarked) of
                Inl e \<Rightarrow> Inl e
              | Inr el' \<Rightarrow>
                  Inr (s\<lparr>rows := (rows s)[r := el'],
                         lastMarkedIndex := (if isMarked then - 1 else dataset_index el')\<rparr>)))"

definition markSingle :: "nat option \<Rightarrow> controller \<Rightarrow> error + controller" where
  "markSingle row s =
     (case clearAllMarks s of
        Inl e \<Rightarrow> Inl e
      | Inr s' \<Rightarrow> toggleMark row s')"

text \<open>
  \<open>markRange\<close>: past the first test, \<open>endRow.dataset\<close> on \<open>undefined\<close> raises. The slice holds
  the same elements as \<open>this.rows\<close>, so marking them marks the rows at those positions.
\<close>

definition markRange :: "nat option \<Rightarrow> controller \<Rightarrow> error + controller" where
  "markRange endRow s =
     (if lastMarkedIndex s = - 1 then toggleMark endRow s
      else
        (case endRow of
           None \<Rightarrow> Inl TypeError
         | Some r \<Rightarrow>
             (let start = min (lastMarkedIndex s) (dataset_index (rows s ! r));
                  end = max (lastMarkedIndex s) (dataset_index (rows s ! r));
                  k = relative_index (length (rows s)) start
              in case forEach (\<lambda>row _. addCls (row\<lparr>dataset_marked := ''true''\<rparr>) (markedCls s))
                        (slice (rows s) start (end + 1)) of
                   Inl e \<Rightarrow> Inl e
                 | Inr ms \<Rightarrow>
                     (let rs = take k (rows s) @ ms @ drop (k + length ms) (rows s)
                      in Inr (s\<lparr>rows := rs, lastMarkedIndex := dataset_index (rs ! r)\<rparr>)))))"

definition handleMarking :: "bool \<Rightarrow> bool \<Rightarrow> controller \<Rightarrow> error + controller" where
  "handleMarking shift ctrl s =
     (let currentRow = at_index (rows s) (selectedIndex s)
      in if shift then markRange currentRow s
         else if ctrl then toggleMark currentRow s
         else markSingle currentRow s)"

section \<open>Events\<close>

text \<open>
  The fields of an event that the handlers read. For a click, \<open>closest_tr\<close> is \<open>None\<close> when
  \<open>e.target.closest('tr')\<close> is \<open>null\<close>, and otherwise the number that \<open>parseInt\<close> reads from
  that row's \<open>dataset.index\<close>: the position of a row of \<open>this.rows\<close>, \<open>NaN\<close> for a row that
  \<open>initialize\<close> never numbered (a row of the table's head or foot).
\<close>

record modifiers =
  shiftKey :: bool
  ctrlKey :: bool
  metaKey :: bool

record keyboard_event = modifiers +
  key :: string

record mouse_event = modifiers +
  closest_tr :: "jsnum option"

definition handleKeyDown :: "keyboard_event \<Rightarrow> controller \<Rightarrow> error + controller" where
  "handleKeyDown e s =
     (let isNavigationKey = (key e \<in> set [''ArrowUp'', ''ArrowDown''])
      in case (if isNavigationKey then handleNavigation (key e) s else Inr s) of
           Inl err \<Rightarrow> Inl err
         | Inr s' \<Rightarrow>
             if key e = '' '' then handleMarking (shiftKey e) (ctrlKey e) s' else Inr s')"

definition handleClick :: "mouse_event \<Rightarrow> controller \<Rightarrow> error + controller" where
  "handleClick e s =
     (case closest_tr e of
        None \<Rightarrow> Inr s
      | Some index \<Rightarrow>
          (case updateNavigation (s\<lparr>selectedIndex := index\<rparr>) of
             Inl err \<Rightarrow> Inl err
           | Inr s' \<Rightarrow> handleMarking (shiftKey e) (ctrlKey e \<or> metaKey e) s'))"

section \<open>Construction\<close>

definition initialize :: "controller \<Rightarrow> error + controller" where
  "initialize s =
     (case forEach
             (\<lambda>row index.
                case classList_remove (markedCls s) (classList row) of
                  Inl e \<Rightarrow> Inl e
                | Inr cl \<Rightarrow>
                    (case classList_remove (selectedCls s) cl of
                       Inl e \<Rightarrow> Inl e
                     | Inr cl' \<Rightarrow>
                         Inr (row\<lparr>dataset_index := int index, tabIndex := - 1,
                                  dataset_marked := ''false'', classList := cl'\<rparr>)))
             (rows s) of
        Inl e \<Rightarrow> Inl e
      | Inr rs \<Rightarrow> updateNavigation (s\<lparr>rows := rs\<rparr>))"

text \<open>
  The constructor. Its first argument stands for \<open>document.getElementById(tableId)\<close>
  followed by \<open>.tBodies[0].rows\<close>: \<open>None\<close> when there is no such table or the table has no
  body, and reading through it raises. The rows come with whatever classes and data
  they had; \<open>initialize\<close> overwrites the data.
\<close>

definition TableNavigator :: "row list option \<Rightarrow> string \<Rightarrow> string \<Rightarrow> error + controller" where
  "TableNavigator tbody selCls mkCls =
     (case tbody of
        None \<Rightarrow> Inl TypeError
      | Some rs \<Rightarrow>
          initialize \<lparr>rows = rs, selectedIndex = Num 0, lastMarkedIndex = - 1,
                      selectedCls = str_split CHR '' '' selCls,
                      markedCls = str_split CHR '' '' mkCls\<rparr>)"

text \<open>
  The calls the controller receives: the two event handlers, which the host calls for
  each event on the table, and the two methods the handlers delegate to. A sequence of
  calls runs until one raises.
\<close>

datatype call =
  KeyDown keyboard_event
| Click mouse_event
| Navigate string
| Mark bool bool

fun perform :: "call \<Rightarrow> controller \<Rightarrow> error + controller" where
  "perform (KeyDown e) s = handleKeyDown e s"
| "perform (Click e) s = handleClick e s"
| "perform (Navigate k) s = handleNavigation k s"
| "perform (Mark shift ctrl) s = handleMarking shift ctrl s"

fun run :: "call list \<Rightarrow> controller \<Rightarrow> error + controller" where
  "run [] s = Inr s"
| "run (c # cs) s =
     (case perform c s of
        Inl e \<Rightarrow> Inl e
      | Inr s' \<Rightarrow> run cs s')"

section \<open>Notions of the specification\<close>

text \<open>
  The visual state of a row is carried by class names: a row shows a state when its class
  list holds every class of the state's list, and is clear of it when it holds none.
\<close>

definition has_classes :: "string list \<Rightarrow> row \<Rightarrow> bool" where
  "has_classes cls r = list_all (\<lambda>c. c \<in> set (classList r)) cls"

definition lacks_classes :: "string list \<Rightarrow> row \<Rightarrow> bool" where
  "lacks_classes cls r = list_all (\<lambda>c. c \<notin> set (classList r)) cls"

definition valid_tokens :: "string list \<Rightarrow> bool" where
  "valid_tokens ts = list_all (\<lambda>t. validate_token t = None) ts"

text \<open>What the three class loops compute when no token is refused.\<close>

definition add_classes :: "string list \<Rightarrow> string list \<Rightarrow> string list" where
  "add_classes cls cl = fold (\<lambda>c xs. if c \<in> set xs then xs else xs @ [c]) cls cl"

definition put_classes :: "string list \<Rightarrow> row \<Rightarrow> row" where
  "put_classes cls r = r\<lparr>classList := add_classes cls (classList r)\<rparr>"

definition drop_classes :: "string list \<Rightarrow> row \<Rightarrow> row" where
  "drop_classes cls r = r\<lparr>classList := filter (\<lambda>c. c \<notin> set cls) (classList r)\<rparr>"

definition toggled :: "string list \<Rightarrow> row \<Rightarrow> row" where
  "toggled cls r =
     (if dataset_marked r = ''true'' then drop_classes cls (r\<lparr>dataset_marked := ''false''\<rparr>)
      else put_classes cls (r\<lparr>dataset_marked := ''true''\<rparr>))"

text \<open>
  The states a controller can be in: every row carries its own position, the anchor is
  \<open>-1\<close> or the position of a row, the two class lists are not empty (\<open>split\<close> never
  returns the empty array), and, when there is a row, every class name is a token the
  class list accepts (otherwise the constructor has raised on the first row).
\<close>

definition well_formed :: "controller \<Rightarrow> bool" where
  "well_formed s \<longleftrightarrow>
     (\<forall>i<length (rows s). dataset_index (rows s ! i) = int i) \<and>
     (lastMarkedIndex s = - 1 \<or>
      (0 \<le> lastMarkedIndex s \<and> lastMarkedIndex s < int (length (rows s)))) \<and>
     selectedCls s \<noteq> [] \<and> markedCls s \<noteq> [] \<and>
     (rows s \<noteq> [] \<longrightarrow> valid_tokens (selectedCls s) \<and> valid_tokens (markedCls s))"

text \<open>
  A click lands on a row of the controller when the index read from the clicked row is
  the position of a row of \<open>this.rows\<close>.
\<close>

definition in_rows :: "nat \<Rightarrow> jsnum \<Rightarrow> bool" where
  "in_rows n idx = (case idx of NaN \<Rightarrow> False | Num i \<Rightarrow> 0 \<le> i \<and> i < int n)"

text \<open>
  The selected visual state is exclusive: with no row nothing can carry it, and
  otherwise \<open>selectedIndex\<close> points at a row, that row carries every selected class,
  and every other row carries none of them (so it does not carry the state).
\<close>

definition exclusive_selection :: "controller \<Rightarrow> bool" where
  "exclusive_selection s =
     (if rows s = [] then True
      else (case at_index (rows s) (selectedIndex s) of
              None \<Rightarrow> False
            | Some b \<Rightarrow>
                (\<forall>i<length (rows s).
                   if i = b then has_classes (selectedCls s) (rows s ! i)
                   else lacks_classes (selectedCls s) (rows s ! i) \<and>
                        \<not> has_classes (selectedCls s) (rows s ! i))))"

text \<open>
  A call that navigates or marks: one of the two methods, or a key press, which calls
  one of them or does nothing.
\<close>

definition navigate_or_mark :: "call \<Rightarrow> bool" where
  "navigate_or_mark c =
     (case c of
        Navigate k \<Rightarrow> k = ''ArrowUp'' \<or> k = ''ArrowDown''
      | Mark shift ctrl \<Rightarrow> True
      | KeyDown e \<Rightarrow> True
      | Click e \<Rightarrow> False)"

text \<open>
  A call that stays on the controller's rows: every call but a click on a row that is
  none of \<open>this.rows\<close>.
\<close>

definition lands_on_row :: "nat \<Rightarrow> call \<Rightarrow> bool" where
  "lands_on_row n c =
     (case c of
        Click e \<Rightarrow> (case closest_tr e of None \<Rightarrow> True | Some idx \<Rightarrow> in_rows n idx)
      | KeyDown e \<Rightarrow> True
      | Navigate k \<Rightarrow> True
      | Mark shift ctrl \<Rightarrow> True)"

text \<open>The two class lists have no class name in common.\<close>

definition share_no_class :: "string list \<Rightarrow> string list \<Rightarrow> bool" where
  "share_no_class sel mk = list_all (\<lambda>c. c \<notin> set mk) sel"

text \<open>
  Examples: a row before construction, the controller of three such rows after it, and
  that controller after a toggle on row 0 and two moves down.
\<close>

definition plain_row :: row where
  "plain_row = \<lparr>dataset_index = 0, dataset_marked = [], tabIndex = 0, classList = []\<rparr>"

definition three_rows :: controller where
  "three_rows =
     \<lparr>rows = [\<lparr>dataset_index = 0, dataset_marked = ''false'', tabIndex = - 1, classList = [''sel'']\<rparr>,
              \<lparr>dataset_index = 1, dataset_marked = ''false'', tabIndex = - 1, classList = []\<rparr>,
              \<lparr>dataset_index = 2, dataset_marked = ''false'', tabIndex = - 1, classList = []\<rparr>],
      selectedIndex = Num 0, lastMarkedIndex = - 1,
      selectedCls = [''sel''], markedCls = [''mk'']\<rparr>"

definition anchored_rows :: controller where
  "anchored_rows =
     \<lparr>rows = [\<lparr>dataset_index = 0, dataset_marked = ''true'', tabIndex = - 1, classList = [''mk'']\<rparr>,
              \<lparr>dataset_index = 1, dataset_marked = ''false'', tabIndex = - 1, classList = []\<rparr>,
              \<lparr>dataset_index = 2, dataset_marked = ''false'', tabIndex = - 1, classList = [''sel'']\<rparr>],
      selectedIndex = Num 2, lastMarkedIndex = 0,
      selectedCls = [''sel''], markedCls = [''mk'']\<rparr>"

text \<open>
  More examples. \<open>off_row\<close>: three rows, row 0 marked, after a click with ctrl on a row
  of the table's head. \<open>deselected_rows\<close>: the fresh controller after a plain click on
  such a row.
  \<open>no_rows\<close>: the controller of an empty table. \<open>shared_class_start\<close> and
  \<open>shared_class_end\<close>: one row, with the class \<open>hl\<close> for both visual states, after
  construction and after two toggles.
\<close>

definition off_row :: controller where
  "off_row =
     \<lparr>rows = [\<lparr>dataset_index = 0, dataset_marked = ''true'', tabIndex = - 1, classList = [''mk'']\<rparr>,
              \<lparr>dataset_index = 1, dataset_marked = ''false'', tabIndex = - 1, classList = []\<rparr>,
              \<lparr>dataset_index = 2, dataset_marked = ''false'', tabIndex = - 1, classList = []\<rparr>],
      selectedIndex = NaN, lastMarkedIndex = 0,
      selectedCls = [''sel''], markedCls = [''mk'']\<rparr>"

definition no_rows :: controller where
  "no_rows = \<lparr>rows = [], selectedIndex = Num 0, lastMarkedIndex = - 1,
              selectedCls = [''sel''], markedCls = [''mk'']\<rparr>"

definition deselected_rows :: controller where
  "deselected_rows =
     \<lparr>rows = [\<lparr>dataset_index = 0, dataset_marked = ''false'', tabIndex = - 1, classList = []\<rparr>,
              \<lparr>dataset_index = 1, dataset_marked = ''false'', tabIndex = - 1, classList = []\<rparr>,
              \<lparr>dataset_index = 2, dataset_marked = ''false'', tabIndex = - 1, classList = []\<rparr>],
      selectedIndex = NaN, lastMarkedIndex = - 1,
      selectedCls = [''sel''], markedCls = [''mk'']\<rparr>"

definition shared_class_start :: controller where
  "shared_class_start =
     \<lparr>rows = [\<lparr>dataset_index = 0, dataset_marked = ''false'', tabIndex = - 1, classList = [''hl'']\<rparr>],
      selectedIndex = Num 0, lastMarkedIndex = - 1,
      selectedCls = [''hl''], markedCls = [''hl'']\<rparr>"

definition shared_class_end :: controller where
  "shared_class_end =
     \<lparr>rows = [\<lparr>dataset_index = 0, dataset_marked = ''false'', tabIndex = - 1, classList = []\<rparr>],
      selectedIndex = Num 0, lastMarkedIndex = - 1,
      selectedCls = [''hl''], markedCls = [''hl'']\<rparr>"

section \<open>The loops and the class lists\<close>

lemma validate_tokens_None: "validate_tokens ts = None \<longleftrightarrow> valid_tokens ts"
  by (induction ts) (auto simp: valid_tokens_def split: option.splits)

lemma set_add_classes: "set (add_classes cls cl) = set cl \<union> set cls"
  unfolding add_classes_def by (induction cls arbitrary: cl) auto

lemma classList_toggle_eq:
  "classList_toggle t force cl = (if force then classList_add t cl else classList_remove [t] cl)"
proof -
  have "t \<notin> set cl \<Longrightarrow> filter (\<lambda>c. c \<noteq> t) cl = cl"
    by (induction cl) auto
  moreover have "removeAll t cl = filter (\<lambda>c. c \<noteq> t) cl"
    by (induction cl) auto
  ultimately show ?thesis
    by (simp add: classList_toggle_def classList_add_def classList_remove_def
        split: option.splits)
qed

lemma toggleCls_eq: "toggleCls el cls force = (if force then addCls el cls else removeCls el cls)"
proof (cases force)
  case True
  have "toggleCls el cls True = addCls el cls"
    by (induction cls arbitrary: el) (simp_all add: classList_toggle_eq split: sum.splits)
  with True show ?thesis by simp
next
  case False
  have "toggleCls el cls False = removeCls el cls"
    by (induction cls arbitrary: el) (simp_all add: classList_toggle_eq split: sum.splits)
  with False show ?thesis by simp
qed

lemma addCls_valid:
  "valid_tokens cls \<Longrightarrow> addCls el cls = Inr (put_classes cls el)"
  unfolding put_classes_def
  by (induction cls arbitrary: el) (simp_all add: valid_tokens_def add_classes_def classList_add_def)

lemma removeCls_valid:
  "valid_tokens cls \<Longrightarrow>
   removeCls el cls = Inr (drop_classes cls el)"
  unfolding drop_classes_def
proof (induction cls arbitrary: el)
  case Nil
  then show ?case by simp
next
  case (Cons t ts)
  have "filter (\<lambda>c. c \<notin> set ts) (filter (\<lambda>c. c \<noteq> t) (classList el))
      = filter (\<lambda>c. c \<notin> set (t # ts)) (classList el)"
    by (auto intro: filter_cong)
  with Cons show ?case
    by (simp add: valid_tokens_def classList_remove_def)
qed

lemma forEach_from_map:
  "(\<And>x j. x \<in> set xs \<Longrightarrow> f x j = Inr (g x)) \<Longrightarrow> forEach_from i f xs = Inr (map g xs)"
  by (induction xs arbitrary: i) simp_all

lemma forEach_map:
  "(\<And>x j. x \<in> set xs \<Longrightarrow> f x j = Inr (g x)) \<Longrightarrow> forEach f xs = Inr (map g xs)"
  unfolding forEach_def by (rule forEach_from_map)

lemma nth_splice:
  assumes "k \<le> e" "e \<le> length xs" "i < length xs"
  shows "(take k xs @ map g (take (e - k) (drop k xs)) @
          drop (k + length (map g (take (e - k) (drop k xs)))) xs) ! i
       = (if k \<le> i \<and> i < e then g (xs ! i) else xs ! i)"
  using assms by (auto simp: nth_append min_def)

lemma length_splice:
  assumes "k \<le> e" "e \<le> length xs"
  shows "length (take k xs @ map g (take (e - k) (drop k xs)) @
          drop (k + length (map g (take (e - k) (drop k xs)))) xs) = length xs"
  using assms by (auto simp: min_def)


lemma at_index_Some: "at_index xs n = Some r \<longleftrightarrow> (n = Num (int r) \<and> r < length xs)"
  by (cases n) (auto simp: at_index_def)

lemma at_index_None:
  "at_index xs n = None \<longleftrightarrow> (\<forall>i. n = Num i \<longrightarrow> i < 0 \<or> int (length xs) \<le> i)"
  by (cases n) (auto simp: at_index_def)

lemma at_index_length: "length ys = length xs \<Longrightarrow> at_index ys n = at_index xs n"
  by (cases n) (simp_all add: at_index_def)

lemma updateNavigation_eq:
  assumes "rows s \<noteq> [] \<longrightarrow> valid_tokens (selectedCls s)"
  shows "updateNavigation s =
     Inr (s\<lparr>rows :=
            (case at_index (rows s) (selectedIndex s) of
               None \<Rightarrow> map (drop_classes (selectedCls s)) (rows s)
             | Some r \<Rightarrow>
                 (map (drop_classes (selectedCls s)) (rows s))
                   [r := put_classes (selectedCls s)
                           (drop_classes (selectedCls s) (rows s ! r))])\<rparr>)"
proof -
  have loop: "forEach (\<lambda>row _. removeCls row (selectedCls s)) (rows s)
      = Inr (map (drop_classes (selectedCls s)) (rows s))"
    using assms by (intro forEach_map removeCls_valid) auto
  have ix: "at_index (map (drop_classes (selectedCls s)) (rows s)) (selectedIndex s)
      = at_index (rows s) (selectedIndex s)"
    by (rule at_index_length) simp
  show ?thesis
  proof (cases "at_index (rows s) (selectedIndex s)")
    case None
    then show ?thesis
      by (simp add: updateNavigation_def loop ix)
  next
    case (Some r)
    then have "r < length (rows s)"
      by (simp add: at_index_Some)
    then have "valid_tokens (selectedCls s)"
      using assms by auto
    then show ?thesis
      using Some \<open>r < length (rows s)\<close>
      by (simp add: updateNavigation_def loop ix addCls_valid)
  qed
qed

lemma clearAllMarks_eq:
  assumes "rows s \<noteq> [] \<longrightarrow> valid_tokens (markedCls s)"
  shows "clearAllMarks s =
     Inr (s\<lparr>rows := map (\<lambda>r. drop_classes (markedCls s) (r\<lparr>dataset_marked := ''false''\<rparr>))
                          (rows s)\<rparr>)"
proof -
  have "forEach (\<lambda>row _. removeCls (row\<lparr>dataset_marked := ''false''\<rparr>) (markedCls s)) (rows s)
      = Inr (map (\<lambda>r. drop_classes (markedCls s) (r\<lparr>dataset_marked := ''false''\<rparr>)) (rows s))"
    using assms by (intro forEach_map removeCls_valid) auto
  then show ?thesis
    by (simp add: clearAllMarks_def)
qed

lemma toggleMark_eq:
  assumes "valid_tokens (markedCls s)"
  shows "toggleMark (Some r) s =
     Inr (s\<lparr>rows := (rows s)[r := toggled (markedCls s) (rows s ! r)],
            lastMarkedIndex :=
              (if dataset_marked (rows s ! r) = ''true'' then - 1
               else dataset_index (rows s ! r))\<rparr>)"
  using assms
  by (simp add: toggleMark_def toggleCls_eq addCls_valid removeCls_valid toggled_def
      put_classes_def drop_classes_def Let_def)


lemma has_classes_put: "has_classes cls (put_classes cls r)"
  by (simp add: has_classes_def put_classes_def set_add_classes list_all_iff)

lemma lacks_classes_drop: "lacks_classes cls (drop_classes cls r)"
  by (simp add: lacks_classes_def drop_classes_def list_all_iff)

lemma well_formed_index: "well_formed s \<Longrightarrow> i < length (rows s) \<Longrightarrow> dataset_index (rows s ! i) = int i"
  by (simp add: well_formed_def)

lemma well_formed_tokens:
  "well_formed s \<Longrightarrow> i < length (rows s) \<Longrightarrow> valid_tokens (selectedCls s) \<and> valid_tokens (markedCls s)"
  by (auto simp: well_formed_def)

lemma markRange_eq:
  assumes wf: "well_formed s" and r: "r < length (rows s)" and a: "lastMarkedIndex s \<noteq> - 1"
  shows "markRange (Some r) s =
     Inr (s\<lparr>rows := map (\<lambda>i. if min (lastMarkedIndex s) (int r) \<le> int i \<and>
                                 int i \<le> max (lastMarkedIndex s) (int r)
                              then put_classes (markedCls s) ((rows s ! i)\<lparr>dataset_marked := ''true''\<rparr>)
                              else rows s ! i) [0..<length (rows s)],
            lastMarkedIndex := int r\<rparr>)"
proof -
  define n where "n = length (rows s)"
  define a where "a = lastMarkedIndex s"
  define g where "g = (\<lambda>row. put_classes (markedCls s) (row\<lparr>dataset_marked := ''true''\<rparr>))"
  define k where "k = nat (min a (int r))"
  define e where "e = Suc (nat (max a (int r)))"
  have a_rng: "0 \<le> a" "a < int n"
    using wf a by (auto simp: well_formed_def a_def n_def)
  have idx: "dataset_index (rows s ! r) = int r"
    using wf r by (rule well_formed_index)
  have tok: "valid_tokens (markedCls s)"
    using well_formed_tokens [OF wf r] by simp
  have ke: "k \<le> e" "e \<le> n" "k \<le> r" "r < e"
    using a_rng r by (auto simp: k_def e_def n_def)
  have rk: "relative_index n (min a (int r)) = k"
    using a_rng r by (auto simp: relative_index_def k_def n_def)
  have re: "relative_index n (max a (int r) + 1) = e"
    using a_rng r by (auto simp: relative_index_def e_def n_def)
  have sl: "slice (rows s) (min a (int r)) (max a (int r) + 1) = take (e - k) (drop k (rows s))"
    using rk re by (simp add: slice_def n_def)
  have loop: "forEach (\<lambda>row _. addCls (row\<lparr>dataset_marked := ''true''\<rparr>) (markedCls s))
                (take (e - k) (drop k (rows s)))
      = Inr (map g (take (e - k) (drop k (rows s))))"
    unfolding g_def using tok by (intro forEach_map addCls_valid)
  define rs where "rs = take k (rows s) @ map g (take (e - k) (drop k (rows s))) @
      drop (k + length (map g (take (e - k) (drop k (rows s))))) (rows s)"
  have len: "length rs = n"
    unfolding rs_def n_def using ke by (intro length_splice) (simp_all add: n_def)
  have nth: "rs ! i = (if k \<le> i \<and> i < e then g (rows s ! i) else rows s ! i)" if "i < n" for i
    unfolding rs_def using ke that by (intro nth_splice) (simp_all add: n_def)
  have cond: "(k \<le> i \<and> i < e) \<longleftrightarrow> (min a (int r) \<le> int i \<and> int i \<le> max a (int r))" for i
    using a_rng by (auto simp: k_def e_def)
  have rs_eq: "rs = map (\<lambda>i. if min a (int r) \<le> int i \<and> int i \<le> max a (int r)
                              then g (rows s ! i) else rows s ! i) [0..<n]"
    by (rule nth_equalityI) (simp_all add: len nth cond)
  have "dataset_index (rs ! r) = int r"
    using nth [of r] r idx by (simp add: n_def g_def put_classes_def)
  then have "markRange (Some r) s = Inr (s\<lparr>rows := rs, lastMarkedIndex := int r\<rparr>)"
    using a rk
    by (simp add: markRange_def idx sl [unfolded a_def] loop rs_def a_def n_def Let_def)
  then show ?thesis
    by (simp add: rs_eq g_def a_def n_def)
qed

section \<open>The operations on a well-formed controller\<close>

lemma put_classes_fields:
  "dataset_marked (put_classes cls r) = dataset_marked r"
  "dataset_index (put_classes cls r) = dataset_index r"
  "set (classList (put_classes cls r)) = set (classList r) \<union> set cls"
  by (simp_all add: put_classes_def set_add_classes)

lemma drop_classes_fields:
  "dataset_marked (drop_classes cls r) = dataset_marked r"
  "dataset_index (drop_classes cls r) = dataset_index r"
  "set (classList (drop_classes cls r)) = set (classList r) - set cls"
  by (auto simp: drop_classes_def)

lemma markSingle_eq:
  assumes wf: "well_formed s" and r: "r < length (rows s)"
  shows "markSingle (Some r) s =
     Inr (s\<lparr>rows := (map (\<lambda>x. drop_classes (markedCls s) (x\<lparr>dataset_marked := ''false''\<rparr>)) (rows s))
                      [r := put_classes (markedCls s)
                              ((drop_classes (markedCls s) ((rows s ! r)\<lparr>dataset_marked := ''false''\<rparr>))
                                 \<lparr>dataset_marked := ''true''\<rparr>)],
            lastMarkedIndex := int r\<rparr>)"
proof -
  have tok: "valid_tokens (markedCls s)"
    using well_formed_tokens [OF wf r] by simp
  have idx: "dataset_index (rows s ! r) = int r"
    using wf r by (rule well_formed_index)
  show ?thesis
    using r tok idx
    by (simp add: markSingle_def clearAllMarks_eq toggleMark_eq toggled_def drop_classes_fields)
qed

lemma at_index_Num: "0 \<le> b \<Longrightarrow> b < int (length xs) \<Longrightarrow> at_index xs (Num b) = Some (nat b)"
  by (simp add: at_index_def)

lemma at_index_Nil: "at_index [] n = None"
  by (cases n) (simp_all add: at_index_def)

lemma updateNavigation_empty: "rows s = [] \<Longrightarrow> updateNavigation s = Inr s"
  by (simp add: updateNavigation_def forEach_def at_index_Nil)

lemma handleMarking_empty:
  "rows s = [] \<Longrightarrow> lastMarkedIndex s = - 1 \<Longrightarrow> handleMarking shift ctrl s = Inr s"
  by (simp add: handleMarking_def markRange_def markSingle_def clearAllMarks_def toggleMark_def
      forEach_def at_index_Nil)

lemma well_formed_frame:
  assumes "well_formed s"
    and "length (rows s') = length (rows s)"
    and "\<And>i. i < length (rows s) \<Longrightarrow> dataset_index (rows s' ! i) = dataset_index (rows s ! i)"
    and "selectedCls s' = selectedCls s" and "markedCls s' = markedCls s"
    and "lastMarkedIndex s' = lastMarkedIndex s \<or> lastMarkedIndex s' = - 1 \<or>
         (0 \<le> lastMarkedIndex s' \<and> lastMarkedIndex s' < int (length (rows s)))"
  shows "well_formed s'"
  using assms unfolding well_formed_def by auto

lemma has_classes_drop: "cls \<noteq> [] \<Longrightarrow> \<not> has_classes cls (drop_classes cls r)"
  by (cases cls) (simp_all add: has_classes_def drop_classes_def)

lemma updateNavigation_frame:
  assumes wf: "well_formed s"
  shows "\<exists>s'. updateNavigation s = Inr s' \<and> well_formed s' \<and>
      length (rows s') = length (rows s) \<and> selectedIndex s' = selectedIndex s \<and>
      lastMarkedIndex s' = lastMarkedIndex s \<and>
      selectedCls s' = selectedCls s \<and> markedCls s' = markedCls s \<and>
      (\<forall>i<length (rows s).
         has_classes (selectedCls s) (rows s' ! i) \<longleftrightarrow> selectedIndex s = Num (int i))"
proof -
  have tok: "rows s \<noteq> [] \<longrightarrow> valid_tokens (selectedCls s)"
    using wf by (simp add: well_formed_def)
  have ne: "selectedCls s \<noteq> []"
    using wf by (simp add: well_formed_def)
  define rs where "rs =
     (case at_index (rows s) (selectedIndex s) of
        None \<Rightarrow> map (drop_classes (selectedCls s)) (rows s)
      | Some r \<Rightarrow>
          (map (drop_classes (selectedCls s)) (rows s))
            [r := put_classes (selectedCls s) (drop_classes (selectedCls s) (rows s ! r))])"
  have eq: "updateNavigation s = Inr (s\<lparr>rows := rs\<rparr>)"
    unfolding rs_def by (rule updateNavigation_eq [OF tok])
  have len: "length rs = length (rows s)"
    by (simp add: rs_def split: option.splits)
  have idx: "dataset_index (rs ! i) = dataset_index (rows s ! i)" if "i < length (rows s)" for i
    using that
    by (auto simp: rs_def nth_list_update drop_classes_fields put_classes_fields at_index_Some
        split: option.splits)
  have shown: "has_classes (selectedCls s) (rs ! i) \<longleftrightarrow> selectedIndex s = Num (int i)"
    if "i < length (rows s)" for i
  proof (cases "at_index (rows s) (selectedIndex s)")
    case None
    then have "selectedIndex s \<noteq> Num (int i)"
      using that by (auto simp: at_index_None)
    then show ?thesis
      using None that ne by (simp add: rs_def has_classes_drop)
  next
    case (Some r)
    then have "selectedIndex s = Num (int r)" "r < length (rows s)"
      by (simp_all add: at_index_Some)
    then show ?thesis
      using Some that ne by (auto simp: rs_def nth_list_update has_classes_drop has_classes_put)
  qed
  have "well_formed (s\<lparr>rows := rs\<rparr>)"
    by (rule well_formed_frame [OF wf]) (simp_all add: len idx)
  then show ?thesis
    using eq len shown by simp
qed

lemma handleMarking_frame:
  assumes wf: "well_formed s" and row: "at_index (rows s) (selectedIndex s) = Some r"
  shows "\<exists>s'. handleMarking shift ctrl s = Inr s' \<and> well_formed s' \<and>
      length (rows s') = length (rows s) \<and> selectedIndex s' = selectedIndex s \<and>
      selectedCls s' = selectedCls s \<and> markedCls s' = markedCls s \<and>
      (\<forall>i<length (rows s). \<forall>c. c \<notin> set (markedCls s) \<longrightarrow>
         (c \<in> set (classList (rows s' ! i)) \<longleftrightarrow> c \<in> set (classList (rows s ! i))))"
proof -
  have r: "r < length (rows s)"
    using row by (simp add: at_index_Some)
  have tok: "valid_tokens (markedCls s)"
    using well_formed_tokens [OF wf r] by simp
  have idx: "dataset_index (rows s ! r) = int r"
    using wf r by (rule well_formed_index)
  consider (range) "shift" "lastMarkedIndex s \<noteq> - 1"
    | (toggle) "shift \<and> lastMarkedIndex s = - 1 \<or> \<not> shift \<and> ctrl"
    | (single) "\<not> shift" "\<not> ctrl"
    by blast
  then show ?thesis
  proof cases
    case range
    then have eq: "handleMarking shift ctrl s = markRange (Some r) s"
      by (simp add: handleMarking_def row)
    let ?s' = "s\<lparr>rows := map (\<lambda>i. if min (lastMarkedIndex s) (int r) \<le> int i \<and>
                                 int i \<le> max (lastMarkedIndex s) (int r)
                              then put_classes (markedCls s) ((rows s ! i)\<lparr>dataset_marked := ''true''\<rparr>)
                              else rows s ! i) [0..<length (rows s)],
            lastMarkedIndex := int r\<rparr>"
    have "well_formed ?s'"
      using r by (intro well_formed_frame [OF wf]) (simp_all add: put_classes_fields)
    then show ?thesis
      unfolding eq markRange_eq [OF wf r range(2)]
      by (simp add: put_classes_fields)
  next
    case toggle
    then have eq: "handleMarking shift ctrl s = toggleMark (Some r) s"
      by (auto simp: handleMarking_def markRange_def row)
    let ?s' = "s\<lparr>rows := (rows s)[r := toggled (markedCls s) (rows s ! r)],
            lastMarkedIndex :=
              (if dataset_marked (rows s ! r) = ''true'' then - 1
               else dataset_index (rows s ! r))\<rparr>"
    have "well_formed ?s'"
      using r idx
      by (intro well_formed_frame [OF wf])
         (auto simp: nth_list_update toggled_def put_classes_fields drop_classes_fields)
    then show ?thesis
      using r unfolding eq toggleMark_eq [OF tok]
      by (auto simp: nth_list_update toggled_def put_classes_fields drop_classes_fields)
  next
    case single
    then have eq: "handleMarking shift ctrl s = markSingle (Some r) s"
      by (simp add: handleMarking_def row)
    let ?s' = "s\<lparr>rows := (map (\<lambda>x. drop_classes (markedCls s) (x\<lparr>dataset_marked := ''false''\<rparr>)) (rows s))
                      [r := put_classes (markedCls s)
                              ((drop_classes (markedCls s) ((rows s ! r)\<lparr>dataset_marked := ''false''\<rparr>))
                                 \<lparr>dataset_marked := ''true''\<rparr>)],
            lastMarkedIndex := int r\<rparr>"
    have "well_formed ?s'"
      using r
      by (intro well_formed_frame [OF wf])
         (auto simp: nth_list_update put_classes_fields drop_classes_fields)
    then show ?thesis
      using r unfolding eq markSingle_eq [OF wf r]
      by (auto simp: nth_list_update put_classes_fields drop_classes_fields)
  qed
qed

section \<open>Construction and sequences of calls\<close>

lemma str_split_nonempty: "str_split sep cs \<noteq> []"
  by (induction cs) (auto split: list.splits)

lemma forEach_from_Inr:
  "forEach_from i f xs = Inr ys \<Longrightarrow>
   length ys = length xs \<and> (\<forall>j<length xs. f (xs ! j) (i + j) = Inr (ys ! j))"
proof (induction xs arbitrary: i ys)
  case Nil
  then show ?case by simp
next
  case (Cons x xs)
  from Cons.prems obtain y zs where
    y: "f x i = Inr y" and zs: "forEach_from (Suc i) f xs = Inr zs" and ys: "ys = y # zs"
    by (auto split: sum.splits)
  from Cons.IH [OF zs] have
    "length zs = length xs" "\<forall>j<length xs. f (xs ! j) (Suc i + j) = Inr (zs ! j)"
    by simp_all
  then show ?case
    using y ys by (auto simp: nth_Cons split: nat.splits)
qed

lemma classList_remove_Inr:
  "classList_remove ts cl = Inr cl' \<Longrightarrow> valid_tokens ts"
  by (simp add: classList_remove_def validate_tokens_None [symmetric] split: option.splits)

lemma TableNavigator_rows_initialized:
  assumes "TableNavigator (Some rs) selCls mkCls = Inr c0"
  shows "\<exists>s1. updateNavigation s1 = Inr c0 \<and> well_formed s1 \<and>
     length (rows s1) = length rs \<and> selectedIndex s1 = Num 0 \<and> lastMarkedIndex s1 = - 1 \<and>
     selectedCls s1 = str_split CHR '' '' selCls \<and> markedCls s1 = str_split CHR '' '' mkCls"
proof -
  define sel where "sel = str_split CHR '' '' selCls"
  define mk where "mk = str_split CHR '' '' mkCls"
  define s0 where "s0 = \<lparr>rows = rs, selectedIndex = Num 0, lastMarkedIndex = - 1,
      selectedCls = sel, markedCls = mk\<rparr>"
  define f where "f = (\<lambda>(row::row) index.
      case classList_remove (markedCls s0) (classList row) of
        Inl e \<Rightarrow> Inl e
      | Inr cl \<Rightarrow>
          (case classList_remove (selectedCls s0) cl of
             Inl e \<Rightarrow> Inl e
           | Inr cl' \<Rightarrow>
               Inr (row\<lparr>dataset_index := int index, tabIndex := - 1,
                        dataset_marked := ''false'', classList := cl'\<rparr>)))"
  have init: "initialize s0 = Inr c0"
    using assms by (simp add: TableNavigator_def s0_def sel_def mk_def)
  have rows0: "rows s0 = rs"
    by (simp add: s0_def)
  have "initialize s0 =
      (case forEach_from 0 f rs of
         Inl e \<Rightarrow> Inl e
       | Inr ys \<Rightarrow> updateNavigation (s0\<lparr>rows := ys\<rparr>))"
    by (simp add: initialize_def forEach_def f_def rows0)
  with init obtain ys where ys: "forEach_from 0 f rs = Inr ys"
    and nav: "updateNavigation (s0\<lparr>rows := ys\<rparr>) = Inr c0"
    by (auto split: sum.splits)
  from forEach_from_Inr [OF ys] have len: "length ys = length rs"
    and each: "\<And>j. j < length rs \<Longrightarrow> f (rs ! j) j = Inr (ys ! j)"
    by simp_all
  have idx: "dataset_index (ys ! j) = int j" if "j < length rs" for j
  proof -
    from each [OF that] obtain cl where
      "(rs ! j)\<lparr>dataset_index := int j, tabIndex := - 1,
                 dataset_marked := ''false'', classList := cl\<rparr> = ys ! j"
      by (auto simp: f_def split: sum.splits)
    then have "ys ! j = (rs ! j)\<lparr>dataset_index := int j, tabIndex := - 1,
                                  dataset_marked := ''false'', classList := cl\<rparr>"
      by (rule sym)
    then show ?thesis by simp
  qed
  have tok: "valid_tokens sel \<and> valid_tokens mk" if "rs \<noteq> []"
  proof -
    have "0 < length rs" using that by simp
    from each [OF this] show ?thesis
      by (auto simp: f_def s0_def split: sum.splits dest: classList_remove_Inr)
  qed
  have tok': "ys \<noteq> [] \<longrightarrow> valid_tokens sel \<and> valid_tokens mk"
    using tok len by (cases rs) auto
  have wf: "well_formed (s0\<lparr>rows := ys\<rparr>)"
    using len idx tok'
    by (simp add: well_formed_def s0_def sel_def mk_def str_split_nonempty)
  show ?thesis
    using nav wf len by (intro exI [of _ "s0\<lparr>rows := ys\<rparr>"]) (simp add: s0_def sel_def mk_def)
qed

lemma TableNavigator_constructed:
  assumes "TableNavigator (Some rs) selCls mkCls = Inr c0"
  shows "well_formed c0 \<and> length (rows c0) = length rs \<and>
     selectedIndex c0 = Num 0 \<and> lastMarkedIndex c0 = - 1 \<and>
     selectedCls c0 = str_split CHR '' '' selCls \<and> markedCls c0 = str_split CHR '' '' mkCls \<and>
     (\<forall>i<length rs. has_classes (selectedCls c0) (rows c0 ! i) \<longleftrightarrow> i = 0)"
proof -
  from TableNavigator_rows_initialized [OF assms] obtain s1 where
    s1: "updateNavigation s1 = Inr c0" "well_formed s1" "length (rows s1) = length rs"
      "selectedIndex s1 = Num 0" "lastMarkedIndex s1 = - 1"
      "selectedCls s1 = str_split CHR '' '' selCls" "markedCls s1 = str_split CHR '' '' mkCls"
    by blast
  from updateNavigation_frame [OF s1(2)] s1 show ?thesis
    by auto
qed

lemma updateNavigation_clears:
  assumes wf: "well_formed s" and ret: "updateNavigation s = Inr s'"
    and i: "i < length (rows s)" and other: "selectedIndex s \<noteq> Num (int i)"
  shows "lacks_classes (selectedCls s) (rows s' ! i)"
proof -
  have tok: "rows s \<noteq> [] \<longrightarrow> valid_tokens (selectedCls s)"
    using wf by (simp add: well_formed_def)
  show ?thesis
  proof (cases "at_index (rows s) (selectedIndex s)")
    case None
    with updateNavigation_eq [OF tok] ret
    have "rows s' = map (drop_classes (selectedCls s)) (rows s)"
      by auto
    then show ?thesis
      using i by (simp add: lacks_classes_drop)
  next
    case (Some r)
    then have "selectedIndex s = Num (int r)"
      by (simp add: at_index_Some)
    with other have "r \<noteq> i"
      by auto
    moreover from Some updateNavigation_eq [OF tok] ret
    have "rows s' = (map (drop_classes (selectedCls s)) (rows s))
            [r := put_classes (selectedCls s) (drop_classes (selectedCls s) (rows s ! r))]"
      by auto
    ultimately show ?thesis
      using i by (simp add: lacks_classes_drop)
  qed
qed

lemma handleNavigation_in_range:
  assumes wf: "well_formed s" and sel: "selectedIndex s = Num i"
    and rng: "0 \<le> i" "i < int (length (rows s))"
  shows "\<exists>s'. handleNavigation k s = Inr s' \<and> well_formed s' \<and>
      length (rows s') = length (rows s) \<and>
      selectedCls s' = selectedCls s \<and> markedCls s' = markedCls s \<and>
      lastMarkedIndex s' = lastMarkedIndex s \<and>
      selectedIndex s' =
        Num (if k = ''ArrowUp'' then max 0 (i - 1) else min (int (length (rows s)) - 1) (i + 1)) \<and>
      (\<forall>j<length (rows s).
         has_classes (selectedCls s) (rows s' ! j) \<longleftrightarrow> selectedIndex s' = Num (int j))"
proof -
  define n where "n = (if k = ''ArrowUp'' then max 0 (i - 1) else min (int (length (rows s)) - 1) (i + 1))"
  have eq: "handleNavigation k s = updateNavigation (s\<lparr>selectedIndex := Num n\<rparr>)"
    using sel by (simp add: handleNavigation_def n_def)
  have "well_formed (s\<lparr>selectedIndex := Num n\<rparr>)"
    using wf by (simp add: well_formed_def)
  from updateNavigation_frame [OF this] show ?thesis
    unfolding eq n_def by auto
qed

lemma handleNavigation_empty:
  assumes "rows s = []" and "selectedIndex s = Num 0 \<or> selectedIndex s = Num (- 1)"
  shows "handleNavigation ''ArrowUp'' s = Inr (s\<lparr>selectedIndex := Num 0\<rparr>)"
    and "handleNavigation ''ArrowDown'' s = Inr (s\<lparr>selectedIndex := Num (- 1)\<rparr>)"
  using assms by (auto simp: handleNavigation_def updateNavigation_empty)

lemma perform_empty:
  assumes "rows s = []" and "lastMarkedIndex s = - 1"
    and "selectedIndex s = Num 0 \<or> selectedIndex s = Num (- 1)"
    and "navigate_or_mark c"
  shows "\<exists>s'. perform c s = Inr s' \<and> s' = s\<lparr>selectedIndex := selectedIndex s'\<rparr> \<and>
      (selectedIndex s' = Num 0 \<or> selectedIndex s' = Num (- 1))"
proof (cases c)
  case (KeyDown e)
  consider (up) "key e = ''ArrowUp''" | (down) "key e = ''ArrowDown''" | (space) "key e = '' ''"
    | (other) "key e \<noteq> ''ArrowUp''" "key e \<noteq> ''ArrowDown''" "key e \<noteq> '' ''"
    by blast
  then show ?thesis
  proof cases
    case up
    then show ?thesis
      using KeyDown assms by (simp add: handleKeyDown_def handleNavigation_empty(1))
  next
    case down
    then show ?thesis
      using KeyDown assms by (simp add: handleKeyDown_def handleNavigation_empty(2))
  next
    case space
    then show ?thesis
      using KeyDown assms by (simp add: handleKeyDown_def handleMarking_empty)
  next
    case other
    then show ?thesis
      using KeyDown assms by (simp add: handleKeyDown_def)
  qed
next
  case (Click e)
  then show ?thesis
    using assms by (simp add: navigate_or_mark_def)
next
  case (Navigate k)
  then show ?thesis
    using assms by (auto simp: navigate_or_mark_def handleNavigation_empty)
next
  case (Mark shift ctrl)
  then show ?thesis
    using assms by (simp add: handleMarking_empty)
qed

lemma run_empty:
  assumes "rows s = []" and "lastMarkedIndex s = - 1"
    and "selectedIndex s = Num 0 \<or> selectedIndex s = Num (- 1)"
    and "list_all navigate_or_mark cs"
  shows "\<exists>s'. run cs s = Inr s' \<and> s' = s\<lparr>selectedIndex := selectedIndex s'\<rparr> \<and>
      (selectedIndex s' = Num 0 \<or> selectedIndex s' = Num (- 1))"
  using assms
proof (induction cs arbitrary: s)
  case Nil
  then show ?case by simp
next
  case (Cons c cs)
  then have c: "navigate_or_mark c" and cs: "list_all navigate_or_mark cs"
    by simp_all
  from perform_empty [OF Cons.prems(1-3) c] obtain s1 where
    s1: "perform c s = Inr s1" "s1 = s\<lparr>selectedIndex := selectedIndex s1\<rparr>"
      "selectedIndex s1 = Num 0 \<or> selectedIndex s1 = Num (- 1)"
    by blast
  have "rows s1 = []" "lastMarkedIndex s1 = - 1"
    using s1(2) Cons.prems(1,2) by (metis controller.select_convs controller.surjective
        controller.update_convs(2))+
  from Cons.IH [OF this s1(3) cs] obtain s' where
    s': "run cs s1 = Inr s'" "s' = s1\<lparr>selectedIndex := selectedIndex s'\<rparr>"
      "selectedIndex s' = Num 0 \<or> selectedIndex s' = Num (- 1)"
    by blast
  have "s' = s\<lparr>selectedIndex := selectedIndex s'\<rparr>"
    using s'(2) s1(2) by (metis controller.update_convs(2) controller.surjective)
  then show ?case
    using s1(1) s'(1,3) by auto
qed


lemma TableNavigator_empty:
  "TableNavigator (Some []) selCls mkCls =
     Inr \<lparr>rows = [], selectedIndex = Num 0, lastMarkedIndex = - 1,
          selectedCls = str_split CHR '' '' selCls, markedCls = str_split CHR '' '' mkCls\<rparr>"
  by (simp add: TableNavigator_def initialize_def forEach_def updateNavigation_empty)

section \<open>The selected row across calls\<close>

lemma in_rows_at_index: "in_rows (length xs) idx \<longleftrightarrow> at_index xs idx \<noteq> None"
  by (cases idx) (simp_all add: in_rows_def at_index_def)

lemma exclusive_selectionI:
  assumes "rows s \<noteq> []" and "at_index (rows s) (selectedIndex s) = Some b"
    and "\<And>i. i < length (rows s) \<Longrightarrow> has_classes (selectedCls s) (rows s ! i) \<longleftrightarrow> i = b"
    and "\<And>i. i < length (rows s) \<Longrightarrow> i \<noteq> b \<Longrightarrow> lacks_classes (selectedCls s) (rows s ! i)"
  shows "exclusive_selection s"
  unfolding exclusive_selection_def using assms by simp

lemma exclusive_selectionD:
  assumes "exclusive_selection s" and "rows s \<noteq> []"
  shows "\<exists>b. at_index (rows s) (selectedIndex s) = Some b \<and>
     (\<forall>i<length (rows s). has_classes (selectedCls s) (rows s ! i) \<longleftrightarrow> i = b) \<and>
     (\<forall>i<length (rows s). i \<noteq> b \<longrightarrow> lacks_classes (selectedCls s) (rows s ! i))"
proof -
  from assms obtain b where b: "at_index (rows s) (selectedIndex s) = Some b"
    and each: "\<forall>i<length (rows s).
        if i = b then has_classes (selectedCls s) (rows s ! i)
        else lacks_classes (selectedCls s) (rows s ! i) \<and>
             \<not> has_classes (selectedCls s) (rows s ! i)"
    by (auto simp: exclusive_selection_def split: option.splits)
  have "has_classes (selectedCls s) (rows s ! i) \<longleftrightarrow> i = b" if "i < length (rows s)" for i
    using each that by (cases "i = b") auto
  moreover have "lacks_classes (selectedCls s) (rows s ! i)"
    if "i < length (rows s)" "i \<noteq> b" for i
    using each that by auto
  ultimately show ?thesis
    using b by blast
qed

lemma select_step:
  assumes wf: "well_formed s" and idx: "rows s = [] \<or> in_rows (length (rows s)) idx"
  shows "\<exists>s'. updateNavigation (s\<lparr>selectedIndex := idx\<rparr>) = Inr s' \<and> well_formed s' \<and>
      exclusive_selection s' \<and> length (rows s') = length (rows s) \<and>
      selectedCls s' = selectedCls s \<and> markedCls s' = markedCls s"
proof -
  let ?s = "s\<lparr>selectedIndex := idx\<rparr>"
  have wf': "well_formed ?s"
    using wf by (simp add: well_formed_def)
  from updateNavigation_frame [OF wf'] obtain s' where
    s': "updateNavigation ?s = Inr s'" "well_formed s'" "length (rows s') = length (rows s)"
      "selectedIndex s' = idx" "selectedCls s' = selectedCls s" "markedCls s' = markedCls s"
      "\<forall>i<length (rows s). has_classes (selectedCls s) (rows s' ! i) \<longleftrightarrow> idx = Num (int i)"
    by auto
  have "exclusive_selection s'"
  proof (cases "rows s = []")
    case True
    then show ?thesis
      using s'(3) by (simp add: exclusive_selection_def)
  next
    case False
    with idx obtain i where i: "idx = Num i" "0 \<le> i" "i < int (length (rows s))"
      by (cases idx) (auto simp: in_rows_def)
    have at: "at_index (rows s') (selectedIndex s') = Some (nat i)"
      using i s'(3,4) by (simp add: at_index_Num)
    have only: "has_classes (selectedCls s') (rows s' ! j) \<longleftrightarrow> j = nat i"
      if "j < length (rows s')" for j
    proof -
      have "has_classes (selectedCls s) (rows s' ! j) \<longleftrightarrow> idx = Num (int j)"
        using s'(7) that s'(3) by simp
      also have "\<dots> \<longleftrightarrow> j = nat i"
        using i by auto
      finally show ?thesis
        by (simp add: s'(5))
    qed
    have clear: "lacks_classes (selectedCls s') (rows s' ! j)"
      if "j < length (rows s')" "j \<noteq> nat i" for j
    proof -
      have "j < length (rows ?s)"
        using that(1) s'(3) by simp
      moreover have "selectedIndex ?s \<noteq> Num (int j)"
        using i that(2) by auto
      ultimately have "lacks_classes (selectedCls ?s) (rows s' ! j)"
        by (rule updateNavigation_clears [OF wf' s'(1)])
      then show ?thesis
        by (simp add: s'(5))
    qed
    have ne: "rows s' \<noteq> []"
      using False s'(3) by auto
    from ne at only clear show ?thesis
      by (rule exclusive_selectionI)
  qed
  with s'(1,2,3,5,6) show ?thesis
    by (intro exI [of _ s']) simp
qed

lemma mark_step:
  assumes wf: "well_formed s" and ex: "exclusive_selection s"
    and dj: "share_no_class (selectedCls s) (markedCls s)"
  shows "\<exists>s'. handleMarking shift ctrl s = Inr s' \<and> well_formed s' \<and>
      exclusive_selection s' \<and> length (rows s') = length (rows s) \<and>
      selectedCls s' = selectedCls s \<and> markedCls s' = markedCls s"
proof (cases "rows s = []")
  case True
  then have "lastMarkedIndex s = - 1"
    using wf by (auto simp: well_formed_def)
  with True have "handleMarking shift ctrl s = Inr s"
    by (rule handleMarking_empty)
  then show ?thesis
    using wf ex by simp
next
  case False
  from exclusive_selectionD [OF ex False] obtain b where
    b: "at_index (rows s) (selectedIndex s) = Some b"
    and only: "\<forall>i<length (rows s). has_classes (selectedCls s) (rows s ! i) \<longleftrightarrow> i = b"
    and clear: "\<forall>i<length (rows s). i \<noteq> b \<longrightarrow> lacks_classes (selectedCls s) (rows s ! i)"
    by blast
  from handleMarking_frame [OF wf b, of shift ctrl] obtain s' where
    s': "handleMarking shift ctrl s = Inr s'" "well_formed s'"
      "length (rows s') = length (rows s)" "selectedIndex s' = selectedIndex s"
      "selectedCls s' = selectedCls s" "markedCls s' = markedCls s"
      "\<forall>i<length (rows s). \<forall>c. c \<notin> set (markedCls s) \<longrightarrow>
         (c \<in> set (classList (rows s' ! i)) \<longleftrightarrow> c \<in> set (classList (rows s ! i)))"
    by blast
  have kept: "c \<in> set (classList (rows s' ! i)) \<longleftrightarrow> c \<in> set (classList (rows s ! i))"
    if "i < length (rows s)" "c \<in> set (selectedCls s)" for i c
  proof -
    have "c \<notin> set (markedCls s)"
      using dj that(2) by (simp add: share_no_class_def list_all_iff)
    with s'(7) that(1) show ?thesis
      by blast
  qed
  have same: "has_classes (selectedCls s) (rows s' ! i) \<longleftrightarrow> has_classes (selectedCls s) (rows s ! i)"
    if "i < length (rows s)" for i
    using kept [OF that] by (simp add: has_classes_def list_all_iff)
  have same_clear: "lacks_classes (selectedCls s) (rows s' ! i) \<longleftrightarrow>
      lacks_classes (selectedCls s) (rows s ! i)"
    if "i < length (rows s)" for i
    using kept [OF that] by (simp add: lacks_classes_def list_all_iff)
  have at: "at_index (rows s') (selectedIndex s') = Some b"
    using b s'(4) at_index_length [OF s'(3), of "selectedIndex s"] by simp
  have only': "has_classes (selectedCls s') (rows s' ! i) \<longleftrightarrow> i = b"
    if "i < length (rows s')" for i
  proof -
    have lt: "i < length (rows s)"
      using that s'(3) by simp
    have "has_classes (selectedCls s') (rows s' ! i) \<longleftrightarrow> has_classes (selectedCls s) (rows s' ! i)"
      by (simp only: s'(5))
    also have "\<dots> \<longleftrightarrow> has_classes (selectedCls s) (rows s ! i)"
      using lt by (rule same)
    also have "\<dots> \<longleftrightarrow> i = b"
      using only lt by blast
    finally show ?thesis .
  qed
  have clear': "lacks_classes (selectedCls s') (rows s' ! i)"
    if "i < length (rows s')" "i \<noteq> b" for i
  proof -
    have lt: "i < length (rows s)"
      using that(1) s'(3) by simp
    have "lacks_classes (selectedCls s) (rows s ! i)"
      using clear lt that(2) by blast
    then have "lacks_classes (selectedCls s) (rows s' ! i)"
      using same_clear [OF lt] by simp
    then show ?thesis
      by (simp only: s'(5))
  qed
  have ne: "rows s' \<noteq> []"
    using False s'(3) by auto
  from ne at only' clear' have "exclusive_selection s'"
    by (rule exclusive_selectionI)
  with s'(1,2,3,5,6) show ?thesis
    by (intro exI [of _ s']) simp
qed

lemma navigate_step:
  assumes wf: "well_formed s" and ex: "exclusive_selection s"
  shows "\<exists>s'. handleNavigation k s = Inr s' \<and> well_formed s' \<and>
      exclusive_selection s' \<and> length (rows s') = length (rows s) \<and>
      selectedCls s' = selectedCls s \<and> markedCls s' = markedCls s"
proof -
  define idx where "idx =
     (if k = ''ArrowUp'' then Math_max (Num 0) (js_plus (selectedIndex s) (- 1))
      else Math_min (Num (int (length (rows s)) - 1)) (js_plus (selectedIndex s) 1))"
  have eq: "handleNavigation k s = updateNavigation (s\<lparr>selectedIndex := idx\<rparr>)"
    by (simp add: handleNavigation_def idx_def)
  have "rows s = [] \<or> in_rows (length (rows s)) idx"
  proof (cases "rows s = []")
    case True
    then show ?thesis by simp
  next
    case False
    with exclusive_selectionD [OF ex] obtain b where
      "at_index (rows s) (selectedIndex s) = Some b"
      by blast
    then have "selectedIndex s = Num (int b)" "b < length (rows s)"
      by (simp_all add: at_index_Some)
    then have "in_rows (length (rows s)) idx"
      by (auto simp: idx_def in_rows_def)
    then show ?thesis ..
  qed
  from select_step [OF wf this] show ?thesis
    unfolding eq .
qed

lemma click_step:
  assumes wf: "well_formed s" and ex: "exclusive_selection s"
    and dj: "share_no_class (selectedCls s) (markedCls s)"
    and on: "lands_on_row (length (rows s)) (Click e)"
  shows "\<exists>s'. handleClick e s = Inr s' \<and> well_formed s' \<and>
      exclusive_selection s' \<and> length (rows s') = length (rows s) \<and>
      selectedCls s' = selectedCls s \<and> markedCls s' = markedCls s"
proof (cases "closest_tr e")
  case None
  then show ?thesis
    using wf ex by (simp add: handleClick_def)
next
  case (Some idx)
  then have "rows s = [] \<or> in_rows (length (rows s)) idx"
    using on by (simp add: lands_on_row_def)
  from select_step [OF wf this] obtain s1 where
    s1: "updateNavigation (s\<lparr>selectedIndex := idx\<rparr>) = Inr s1" "well_formed s1"
      "exclusive_selection s1" "length (rows s1) = length (rows s)"
      "selectedCls s1 = selectedCls s" "markedCls s1 = markedCls s"
    by blast
  have dj1: "share_no_class (selectedCls s1) (markedCls s1)"
    using dj s1(5,6) by simp
  from mark_step [OF s1(2,3) dj1, of "shiftKey e" "ctrlKey e \<or> metaKey e"] obtain s' where
    s': "handleMarking (shiftKey e) (ctrlKey e \<or> metaKey e) s1 = Inr s'" "well_formed s'"
      "exclusive_selection s'" "length (rows s') = length (rows s1)"
      "selectedCls s' = selectedCls s1" "markedCls s' = markedCls s1"
    by blast
  have "handleClick e s = Inr s'"
    using Some s1(1) s'(1) by (simp add: handleClick_def)
  with s'(2,3,4,5,6) s1(4,5,6) show ?thesis
    by (intro exI [of _ s']) simp
qed

lemma keydown_step:
  assumes wf: "well_formed s" and ex: "exclusive_selection s"
    and dj: "share_no_class (selectedCls s) (markedCls s)"
  shows "\<exists>s'. handleKeyDown e s = Inr s' \<and> well_formed s' \<and>
      exclusive_selection s' \<and> length (rows s') = length (rows s) \<and>
      selectedCls s' = selectedCls s \<and> markedCls s' = markedCls s"
proof -
  consider (nav) "key e = ''ArrowUp'' \<or> key e = ''ArrowDown''" | (space) "key e = '' ''"
    | (other) "key e \<noteq> ''ArrowUp''" "key e \<noteq> ''ArrowDown''" "key e \<noteq> '' ''"
    by blast
  then show ?thesis
  proof cases
    case nav
    then have "handleKeyDown e s =
        (case handleNavigation (key e) s of Inl err \<Rightarrow> Inl err | Inr s' \<Rightarrow> Inr s')"
      by (auto simp: handleKeyDown_def split: sum.splits)
    with navigate_step [OF wf ex, of "key e"] show ?thesis
      by auto
  next
    case space
    then have "handleKeyDown e s = handleMarking (shiftKey e) (ctrlKey e) s"
      by (simp add: handleKeyDown_def)
    with mark_step [OF wf ex dj, of "shiftKey e" "ctrlKey e"] show ?thesis
      by simp
  next
    case other
    then have "handleKeyDown e s = Inr s"
      by (simp add: handleKeyDown_def)
    with wf ex show ?thesis
      by simp
  qed
qed

lemma perform_step:
  assumes wf: "well_formed s" and ex: "exclusive_selection s"
    and dj: "share_no_class (selectedCls s) (markedCls s)"
    and on: "lands_on_row (length (rows s)) c"
  shows "\<exists>s'. perform c s = Inr s' \<and> well_formed s' \<and>
      exclusive_selection s' \<and> length (rows s') = length (rows s) \<and>
      selectedCls s' = selectedCls s \<and> markedCls s' = markedCls s"
proof (cases c)
  case (KeyDown e)
  with keydown_step [OF wf ex dj, of e] show ?thesis by simp
next
  case (Click e)
  with click_step [OF wf ex dj, of e] on show ?thesis by simp
next
  case (Navigate k)
  with navigate_step [OF wf ex, of k] show ?thesis by simp
next
  case (Mark shift ctrl)
  with mark_step [OF wf ex dj, of shift ctrl] show ?thesis by simp
qed

lemma run_steps:
  assumes "well_formed s" and "exclusive_selection s"
    and "share_no_class (selectedCls s) (markedCls s)"
    and "list_all (lands_on_row (length (rows s))) cs"
  shows "\<exists>s'. run cs s = Inr s' \<and> well_formed s' \<and> exclusive_selection s' \<and>
      length (rows s') = length (rows s)"
  using assms
proof (induction cs arbitrary: s)
  case Nil
  then show ?case by simp
next
  case (Cons c cs)
  then have c: "lands_on_row (length (rows s)) c"
    and cs: "list_all (lands_on_row (length (rows s))) cs"
    by simp_all
  from perform_step [OF Cons.prems(1-3) c] obtain s1 where
    s1: "perform c s = Inr s1" "well_formed s1" "exclusive_selection s1"
      "length (rows s1) = length (rows s)"
      "selectedCls s1 = selectedCls s" "markedCls s1 = markedCls s"
    by blast
  have dj1: "share_no_class (selectedCls s1) (markedCls s1)"
    using Cons.prems(3) s1(5,6) by simp
  have cs1: "list_all (lands_on_row (length (rows s1))) cs"
    using cs s1(4) by simp
  from Cons.IH [OF s1(2,3) dj1 cs1] obtain s' where
    "run cs s1 = Inr s'" "well_formed s'" "exclusive_selection s'"
    "length (rows s') = length (rows s1)"
    by blast
  with s1(1,4) show ?case
    by (intro exI [of _ s']) simp
qed

lemma constructed_exclusive:
  assumes "TableNavigator (Some rs) selCls mkCls = Inr c0"
  shows "exclusive_selection c0"
proof -
  from TableNavigator_rows_initialized [OF assms] obtain s1 where
    s1: "updateNavigation s1 = Inr c0" "well_formed s1" "length (rows s1) = length rs"
      "selectedIndex s1 = Num 0"
    by blast
  have "rows s1 = [] \<or> in_rows (length (rows s1)) (Num 0)"
    by (cases "rows s1") (simp_all add: in_rows_def)
  from select_step [OF s1(2) this] obtain s' where
    s': "updateNavigation (s1\<lparr>selectedIndex := Num 0\<rparr>) = Inr s'" "exclusive_selection s'"
    by blast
  have "s1\<lparr>selectedIndex := Num 0\<rparr> = s1"
    using s1(4) by (cases s1) simp
  with s'(1) s1(1) have "s' = c0"
    by simp
  with s'(2) show ?thesis
    by simp
qed

section \<open>Every state a controller reaches is well-formed\<close>

text \<open>
  What marking does when \<open>selectedIndex\<close> points at no row, and then: every call that
  returns keeps the controller well-formed, whatever was clicked, so the invariant holds
  in every state reached from a constructed controller.
\<close>

lemma handleMarking_no_row:
  assumes "well_formed s" and "at_index (rows s) (selectedIndex s) = None"
  shows "handleMarking False True s = Inr s"
    and "lastMarkedIndex s = - 1 \<Longrightarrow> handleMarking True ctrl s = Inr s"
    and "lastMarkedIndex s \<noteq> - 1 \<Longrightarrow> handleMarking True ctrl s = Inl TypeError"
    and "handleMarking False False s =
       Inr (s\<lparr>rows := map (\<lambda>r. drop_classes (markedCls s) (r\<lparr>dataset_marked := ''false''\<rparr>))
                            (rows s)\<rparr>)"
proof -
  have tok: "rows s \<noteq> [] \<longrightarrow> valid_tokens (markedCls s)"
    using assms(1) by (simp add: well_formed_def)
  show "handleMarking False True s = Inr s"
    using assms(2) by (simp add: handleMarking_def toggleMark_def)
  show "lastMarkedIndex s = - 1 \<Longrightarrow> handleMarking True ctrl s = Inr s"
    using assms(2) by (simp add: handleMarking_def markRange_def toggleMark_def)
  show "lastMarkedIndex s \<noteq> - 1 \<Longrightarrow> handleMarking True ctrl s = Inl TypeError"
    using assms(2) by (simp add: handleMarking_def markRange_def)
  show "handleMarking False False s =
       Inr (s\<lparr>rows := map (\<lambda>r. drop_classes (markedCls s) (r\<lparr>dataset_marked := ''false''\<rparr>))
                            (rows s)\<rparr>)"
    using assms(2)
    by (simp add: handleMarking_def markSingle_def toggleMark_def clearAllMarks_eq [OF tok])
qed

lemma handleMarking_well_formed:
  assumes wf: "well_formed s" and ret: "handleMarking shift ctrl s = Inr s'"
  shows "well_formed s' \<and> length (rows s') = length (rows s) \<and>
     selectedCls s' = selectedCls s \<and> markedCls s' = markedCls s"
proof (cases "at_index (rows s) (selectedIndex s)")
  case (Some r)
  from handleMarking_frame [OF wf Some, of shift ctrl] ret show ?thesis
    by auto
next
  case None
  note no_row = handleMarking_no_row [OF wf None]
  let ?cleared = "s\<lparr>rows := map (\<lambda>r. drop_classes (markedCls s) (r\<lparr>dataset_marked := ''false''\<rparr>))
                                 (rows s)\<rparr>"
  have cleared: "well_formed ?cleared"
    by (rule well_formed_frame [OF wf]) (simp_all add: drop_classes_fields)
  consider (range) "shift" | (toggle) "\<not> shift" "ctrl" | (single) "\<not> shift" "\<not> ctrl"
    by blast
  then show ?thesis
  proof cases
    case range
    then have "s' = s"
      using ret no_row(2,3) [of ctrl] by (cases "lastMarkedIndex s = - 1") simp_all
    then show ?thesis
      using wf by simp
  next
    case toggle
    then have "s' = s"
      using ret no_row(1) by simp
    then show ?thesis
      using wf by simp
  next
    case single
    then have "s' = ?cleared"
      using ret no_row(4) by simp
    then show ?thesis
      using cleared by simp
  qed
qed

lemma updateNavigation_well_formed:
  assumes "well_formed s" and "updateNavigation (s\<lparr>selectedIndex := idx\<rparr>) = Inr s'"
  shows "well_formed s' \<and> length (rows s') = length (rows s) \<and>
     selectedCls s' = selectedCls s \<and> markedCls s' = markedCls s"
proof -
  have "well_formed (s\<lparr>selectedIndex := idx\<rparr>)"
    using assms(1) by (simp add: well_formed_def)
  from updateNavigation_frame [OF this] assms(2) show ?thesis
    by auto
qed

lemma perform_well_formed:
  assumes wf: "well_formed s" and ret: "perform c s = Inr s'"
  shows "well_formed s' \<and> length (rows s') = length (rows s) \<and>
     selectedCls s' = selectedCls s \<and> markedCls s' = markedCls s"
proof (cases c)
  case (KeyDown e)
  then have ret': "handleKeyDown e s = Inr s'"
    using ret by simp
  show ?thesis
  proof (cases "key e = ''ArrowUp'' \<or> key e = ''ArrowDown''")
    case True
    then have "handleNavigation (key e) s = Inr s'"
      using ret' by (auto simp: handleKeyDown_def split: sum.splits)
    then show ?thesis
      using updateNavigation_well_formed [OF wf] by (simp add: handleNavigation_def Let_def)
  next
    case False
    then have "(if key e = '' '' then handleMarking (shiftKey e) (ctrlKey e) s else Inr s) = Inr s'"
      using ret' by (simp add: handleKeyDown_def)
    then show ?thesis
      using handleMarking_well_formed [OF wf] wf by (auto split: if_splits)
  qed
next
  case (Click e)
  then have ret': "handleClick e s = Inr s'"
    using ret by simp
  show ?thesis
  proof (cases "closest_tr e")
    case None
    then show ?thesis
      using ret' wf by (simp add: handleClick_def)
  next
    case (Some idx)
    with ret' obtain s1 where
      s1: "updateNavigation (s\<lparr>selectedIndex := idx\<rparr>) = Inr s1"
        "handleMarking (shiftKey e) (ctrlKey e \<or> metaKey e) s1 = Inr s'"
      by (auto simp: handleClick_def split: sum.splits)
    from updateNavigation_well_formed [OF wf s1(1)] handleMarking_well_formed [OF _ s1(2)]
    show ?thesis by simp
  qed
next
  case (Navigate k)
  then show ?thesis
    using ret updateNavigation_well_formed [OF wf] by (simp add: handleNavigation_def Let_def)
next
  case (Mark shift ctrl)
  then show ?thesis
    using ret handleMarking_well_formed [OF wf] by simp
qed

lemma run_well_formed:
  assumes "well_formed s" and "run cs s = Inr s'"
  shows "well_formed s' \<and> length (rows s') = length (rows s)"
  using assms
proof (induction cs arbitrary: s)
  case Nil
  then show ?case by simp
next
  case (Cons c cs)
  from Cons.prems(2) obtain s1 where s1: "perform c s = Inr s1" "run cs s1 = Inr s'"
    by (auto split: sum.splits)
  from perform_well_formed [OF Cons.prems(1) s1(1)] Cons.IH [OF _ s1(2)] show ?case
    by simp
qed

lemma reachable_well_formed:
  assumes "TableNavigator (Some rs) selCls mkCls = Inr c0" and "run cs c0 = Inr s"
  shows "well_formed s \<and> length (rows s) = length rs"
  using TableNavigator_constructed [OF assms(1)] run_well_formed [OF _ assms(2)] by simp

section \<open>The example states\<close>

lemma three_rows_constructed:
  "TableNavigator (Some [plain_row, plain_row, plain_row]) ''sel'' ''mk'' = Inr three_rows"
  by code_simp

lemma anchored_rows_reached:
  "run [Mark False True, Navigate ''ArrowDown'', Navigate ''ArrowDown''] three_rows = Inr anchored_rows"
  by code_simp

lemma three_rows_well_formed: "well_formed three_rows"
  by code_simp

lemma anchored_rows_well_formed: "well_formed anchored_rows"
  by code_simp

lemma off_row_reached:
  "run [Mark False False,
        Click \<lparr>shiftKey = False, ctrlKey = True, metaKey = False, closest_tr = Some NaN\<rparr>]
     three_rows = Inr off_row"
  by code_simp

lemma off_row_well_formed: "well_formed off_row"
  by code_simp

lemma deselected_rows_reached:
  "run [Click \<lparr>shiftKey = False, ctrlKey = False, metaKey = False, closest_tr = Some NaN\<rparr>]
     three_rows = Inr deselected_rows"
  by code_simp

lemma deselected_rows_well_formed: "well_formed deselected_rows"
  by code_simp

lemma shared_class_constructed:
  "TableNavigator (Some [plain_row]) ''hl'' ''hl'' = Inr shared_class_start"
  by code_simp

lemma shared_class_end_reached:
  "run [Mark False True, Mark False True] shared_class_start = Inr shared_class_end"
  by code_simp

section \<open>The claims\<close>

text \<open>
  C1. With an anchor \<open>a\<close> (not \<open>-1\<close>) and the selected row at index \<open>b\<close>, marking in range
  mode returns normally; afterwards every row whose index lies in the closed interval from
  \<open>min a b\<close> to \<open>max a b\<close> has its marked flag set and carries the marked classes, every
  row outside the interval is the row it was, and the anchor is \<open>b\<close>.
\<close>

theorem markRange_marks_closed_interval:
  assumes "well_formed s" and "selectedIndex s = Num b" and "0 \<le> b" and "b < int (length (rows s))"
    and "lastMarkedIndex s = a" and "a \<noteq> - 1"
  shows "\<exists>s'. handleMarking True ctrl s = Inr s' \<and>
      length (rows s') = length (rows s) \<and> lastMarkedIndex s' = b \<and>
      (\<forall>i<length (rows s).
         if min a b \<le> int i \<and> int i \<le> max a b
         then dataset_marked (rows s' ! i) = ''true'' \<and> has_classes (markedCls s) (rows s' ! i)
         else rows s' ! i = rows s ! i)"
proof -
  have r: "nat b < length (rows s)"
    using assms by simp
  have "handleMarking True ctrl s = markRange (Some (nat b)) s"
    using assms by (simp add: handleMarking_def at_index_Num)
  then show ?thesis
    using assms r
    by (auto simp: markRange_eq [OF assms(1) r] has_classes_put put_classes_fields)
qed

theorem markRange_marks_closed_interval_witness:
  "well_formed anchored_rows \<and> selectedIndex anchored_rows = Num 2 \<and>
   2 < int (length (rows anchored_rows)) \<and> lastMarkedIndex anchored_rows = 0 \<and>
   (\<exists>s'. handleMarking True False anchored_rows = Inr s' \<and>
      length (rows s') = length (rows anchored_rows) \<and> lastMarkedIndex s' = 2 \<and>
      (\<forall>i<length (rows anchored_rows).
         if min 0 2 \<le> int i \<and> int i \<le> max 0 2
         then dataset_marked (rows s' ! i) = ''true'' \<and>
              has_classes (markedCls anchored_rows) (rows s' ! i)
         else rows s' ! i = rows anchored_rows ! i))"
proof -
  have h: "selectedIndex anchored_rows = Num 2" "(0::int) \<le> 2"
    "2 < int (length (rows anchored_rows))" "lastMarkedIndex anchored_rows = 0" "(0::int) \<noteq> - 1"
    by (simp_all add: anchored_rows_def)
  from markRange_marks_closed_interval [OF anchored_rows_well_formed h, of False]
    anchored_rows_well_formed h
  show ?thesis by blast
qed

text \<open>
  C6. After marking in single mode with a valid selected index, the selected row has its
  marked flag set and carries the marked classes, and every other row has its flag cleared
  and carries none of the marked classes, whatever was marked before.
\<close>

theorem markSingle_marks_only_selected:
  assumes "well_formed s" and "selectedIndex s = Num b" and "0 \<le> b" and "b < int (length (rows s))"
  shows "\<exists>s'. handleMarking False False s = Inr s' \<and>
      length (rows s') = length (rows s) \<and> markedCls s' = markedCls s \<and>
      (\<forall>i<length (rows s).
         if int i = b
         then dataset_marked (rows s' ! i) = ''true'' \<and> has_classes (markedCls s) (rows s' ! i)
         else dataset_marked (rows s' ! i) = ''false'' \<and> lacks_classes (markedCls s) (rows s' ! i))"
proof -
  have r: "nat b < length (rows s)"
    using assms by simp
  have "handleMarking False False s = markSingle (Some (nat b)) s"
    using assms by (simp add: handleMarking_def at_index_Num)
  then show ?thesis
    using assms r
    by (auto simp: markSingle_eq [OF assms(1) r] nth_list_update has_classes_put lacks_classes_drop
        drop_classes_fields put_classes_fields)
qed

theorem markSingle_marks_only_selected_witness:
  "well_formed anchored_rows \<and> selectedIndex anchored_rows = Num 2 \<and>
   2 < int (length (rows anchored_rows)) \<and>
   (\<exists>s'. handleMarking False False anchored_rows = Inr s' \<and>
      length (rows s') = length (rows anchored_rows) \<and>
      markedCls s' = markedCls anchored_rows \<and>
      (\<forall>i<length (rows anchored_rows).
         if int i = 2
         then dataset_marked (rows s' ! i) = ''true'' \<and>
              has_classes (markedCls anchored_rows) (rows s' ! i)
         else dataset_marked (rows s' ! i) = ''false'' \<and>
              lacks_classes (markedCls anchored_rows) (rows s' ! i)))"
proof -
  have h: "selectedIndex anchored_rows = Num 2" "(0::int) \<le> 2"
    "2 < int (length (rows anchored_rows))"
    by (simp_all add: anchored_rows_def)
  from markSingle_marks_only_selected [OF anchored_rows_well_formed h]
    anchored_rows_well_formed h
  show ?thesis by blast
qed

text \<open>
  C7. Marking in toggle mode on the valid selected row leaves every other row as it was.
  A row whose flag was set has it cleared, loses the marked classes, and the anchor becomes
  \<open>-1\<close>; a row whose flag was not set has it set, carries the marked classes, and becomes
  the anchor.
\<close>

theorem toggleMark_flips_selected_only:
  assumes "well_formed s" and "selectedIndex s = Num b" and "0 \<le> b" and "b < int (length (rows s))"
  shows "\<exists>s'. handleMarking False True s = Inr s' \<and>
      length (rows s') = length (rows s) \<and>
      (\<forall>i<length (rows s). int i \<noteq> b \<longrightarrow> rows s' ! i = rows s ! i) \<and>
      (if dataset_marked (rows s ! nat b) = ''true''
       then dataset_marked (rows s' ! nat b) = ''false'' \<and>
            lacks_classes (markedCls s) (rows s' ! nat b) \<and> lastMarkedIndex s' = - 1
       else dataset_marked (rows s' ! nat b) = ''true'' \<and>
            has_classes (markedCls s) (rows s' ! nat b) \<and> lastMarkedIndex s' = b)"
proof -
  have r: "nat b < length (rows s)"
    using assms by simp
  have tok: "valid_tokens (markedCls s)"
    using well_formed_tokens [OF assms(1) r] by simp
  have idx: "dataset_index (rows s ! nat b) = b"
    using well_formed_index [OF assms(1) r] assms(3) by simp
  have "handleMarking False True s = toggleMark (Some (nat b)) s"
    using assms by (simp add: handleMarking_def at_index_Num)
  then show ?thesis
    using assms r idx
    by (auto simp: toggleMark_eq [OF tok] toggled_def has_classes_put lacks_classes_drop
        drop_classes_fields put_classes_fields)
qed

theorem toggleMark_flips_selected_only_witness:
  "well_formed anchored_rows \<and> selectedIndex anchored_rows = Num 2 \<and>
   2 < int (length (rows anchored_rows)) \<and>
   dataset_marked (rows anchored_rows ! nat 2) \<noteq> ''true'' \<and>
   (\<exists>s'. handleMarking False True anchored_rows = Inr s' \<and>
      length (rows s') = length (rows anchored_rows) \<and>
      rows s' ! 0 = rows anchored_rows ! 0 \<and> rows s' ! 1 = rows anchored_rows ! 1 \<and>
      dataset_marked (rows s' ! nat 2) = ''true'' \<and>
      has_classes (markedCls anchored_rows) (rows s' ! nat 2) \<and> lastMarkedIndex s' = 2)"
proof -
  have h: "selectedIndex anchored_rows = Num 2" "(0::int) \<le> 2"
    "2 < int (length (rows anchored_rows))"
    by (simp_all add: anchored_rows_def)
  have unmarked: "dataset_marked (rows anchored_rows ! nat 2) \<noteq> ''true''"
    by (simp add: anchored_rows_def)
  have len: "0 < length (rows anchored_rows)" "1 < length (rows anchored_rows)"
    by (simp_all add: anchored_rows_def)
  from toggleMark_flips_selected_only [OF anchored_rows_well_formed h] obtain s' where
    s': "handleMarking False True anchored_rows = Inr s'"
      "length (rows s') = length (rows anchored_rows)"
      "\<forall>i<length (rows anchored_rows). int i \<noteq> 2 \<longrightarrow> rows s' ! i = rows anchored_rows ! i"
      "if dataset_marked (rows anchored_rows ! nat 2) = ''true''
       then dataset_marked (rows s' ! nat 2) = ''false'' \<and>
            lacks_classes (markedCls anchored_rows) (rows s' ! nat 2) \<and> lastMarkedIndex s' = - 1
       else dataset_marked (rows s' ! nat 2) = ''true'' \<and>
            has_classes (markedCls anchored_rows) (rows s' ! nat 2) \<and> lastMarkedIndex s' = 2"
    by blast
  have "rows s' ! 0 = rows anchored_rows ! 0" "rows s' ! 1 = rows anchored_rows ! 1"
    using s'(3) len by auto
  with s' unmarked anchored_rows_well_formed h show ?thesis
    by auto
qed

text \<open>
  C10. After marking in single mode with a valid selected index, the anchor
  \<open>lastMarkedIndex\<close> is the selected index, and the selected index has not moved.
\<close>

theorem markSingle_sets_anchor:
  assumes "well_formed s" and "selectedIndex s = Num b" and "0 \<le> b" and "b < int (length (rows s))"
  shows "\<exists>s'. handleMarking False False s = Inr s' \<and>
      lastMarkedIndex s' = b \<and> selectedIndex s' = Num b"
proof -
  have r: "nat b < length (rows s)"
    using assms by simp
  have "handleMarking False False s = markSingle (Some (nat b)) s"
    using assms by (simp add: handleMarking_def at_index_Num)
  then show ?thesis
    using assms by (simp add: markSingle_eq [OF assms(1) r])
qed

theorem markSingle_sets_anchor_witness:
  "well_formed anchored_rows \<and> selectedIndex anchored_rows = Num 2 \<and>
   2 < int (length (rows anchored_rows)) \<and> lastMarkedIndex anchored_rows = 0 \<and>
   (\<exists>s'. handleMarking False False anchored_rows = Inr s' \<and>
      lastMarkedIndex s' = 2 \<and> selectedIndex s' = Num 2)"
proof -
  have h: "selectedIndex anchored_rows = Num 2" "(0::int) \<le> 2"
    "2 < int (length (rows anchored_rows))"
    by (simp_all add: anchored_rows_def)
  have "lastMarkedIndex anchored_rows = 0"
    by (simp add: anchored_rows_def)
  with markSingle_sets_anchor [OF anchored_rows_well_formed h]
    anchored_rows_well_formed h
  show ?thesis by blast
qed

text \<open>
  C5. On a table with at least one row, after construction and after any sequence of
  navigation calls, \<open>selectedIndex\<close> is an integer from \<open>0\<close> to \<open>rowCount - 1\<close>; from
  there, moving up returns normally with the index decremented and clamped at \<open>0\<close>, and
  moving down with the index incremented and clamped at \<open>rowCount - 1\<close>. (A key that is
  not \<open>ArrowUp\<close> moves down, so the sequence may hold any keys.)
\<close>

theorem navigation_stays_in_range:
  assumes "TableNavigator (Some rs) selCls mkCls = Inr c0" and "rs \<noteq> []"
  shows "\<exists>s i. run (map Navigate ks) c0 = Inr s \<and> length (rows s) = length rs \<and>
      selectedIndex s = Num i \<and> 0 \<le> i \<and> i \<le> int (length rs) - 1 \<and>
      (\<exists>s'. handleNavigation ''ArrowUp'' s = Inr s' \<and>
            selectedIndex s' = Num (max 0 (i - 1))) \<and>
      (\<exists>s'. handleNavigation ''ArrowDown'' s = Inr s' \<and>
            selectedIndex s' = Num (min (int (length rs) - 1) (i + 1)))"
proof -
  have step: "\<exists>s' i'. run (map Navigate ks) s = Inr s' \<and> well_formed s' \<and>
      length (rows s') = length (rows s) \<and> selectedIndex s' = Num i' \<and>
      0 \<le> i' \<and> i' < int (length (rows s))"
    if "well_formed s" "selectedIndex s = Num i" "0 \<le> i" "i < int (length (rows s))" for s i
    using that
  proof (induction ks arbitrary: s i)
    case Nil
    then show ?case by simp
  next
    case (Cons k ks)
    from handleNavigation_in_range [OF Cons.prems, of k] obtain s1 where
      s1: "handleNavigation k s = Inr s1" "well_formed s1" "length (rows s1) = length (rows s)"
        "selectedIndex s1 =
           Num (if k = ''ArrowUp'' then max 0 (i - 1) else min (int (length (rows s)) - 1) (i + 1))"
      by blast
    define i1 where "i1 = (if k = ''ArrowUp'' then max 0 (i - 1) else min (int (length (rows s)) - 1) (i + 1))"
    have "selectedIndex s1 = Num i1" "0 \<le> i1" "i1 < int (length (rows s1))"
      using s1 Cons.prems by (auto simp: i1_def)
    from Cons.IH [OF s1(2) this] s1 show ?case
      by auto
  qed
  from TableNavigator_constructed [OF assms(1)] have
    c0: "well_formed c0" "length (rows c0) = length rs" "selectedIndex c0 = Num 0"
    by simp_all
  have "(0::int) \<le> 0" "0 < int (length (rows c0))"
    using c0 assms(2) by simp_all
  from step [OF c0(1) c0(3) this] obtain s i where
    s: "run (map Navigate ks) c0 = Inr s" "well_formed s" "length (rows s) = length (rows c0)"
      "selectedIndex s = Num i" "0 \<le> i" "i < int (length (rows c0))"
    by blast
  have rng: "i < int (length (rows s))"
    using s by simp
  from handleNavigation_in_range [OF s(2) s(4) s(5) rng, of "''ArrowUp''"]
  have up: "\<exists>s'. handleNavigation ''ArrowUp'' s = Inr s' \<and> selectedIndex s' = Num (max 0 (i - 1))"
    by auto
  from handleNavigation_in_range [OF s(2) s(4) s(5) rng, of "''ArrowDown''"]
  have down: "\<exists>s'. handleNavigation ''ArrowDown'' s = Inr s' \<and>
      selectedIndex s' = Num (min (int (length rs) - 1) (i + 1))"
    using s(3) c0(2) by auto
  show ?thesis
    using s c0(2) up down by auto
qed

theorem navigation_stays_in_range_witness:
  "TableNavigator (Some [plain_row, plain_row, plain_row]) ''sel'' ''mk'' = Inr three_rows \<and>
   [plain_row, plain_row, plain_row] \<noteq> [] \<and>
   (\<exists>s i. run (map Navigate [''ArrowUp'', ''ArrowDown'', ''ArrowDown'', ''ArrowDown'']) three_rows
              = Inr s \<and>
      length (rows s) = length [plain_row, plain_row, plain_row] \<and>
      selectedIndex s = Num i \<and> 0 \<le> i \<and>
      i \<le> int (length [plain_row, plain_row, plain_row]) - 1 \<and>
      (\<exists>s'. handleNavigation ''ArrowUp'' s = Inr s' \<and>
            selectedIndex s' = Num (max 0 (i - 1))) \<and>
      (\<exists>s'. handleNavigation ''ArrowDown'' s = Inr s' \<and>
            selectedIndex s' = Num (min (int (length [plain_row, plain_row, plain_row]) - 1) (i + 1))))"
proof -
  have ne: "[plain_row, plain_row, plain_row] \<noteq> []"
    by simp
  from navigation_stays_in_range [OF three_rows_constructed ne,
      of "[''ArrowUp'', ''ArrowDown'', ''ArrowDown'', ''ArrowDown'']"]
    three_rows_constructed ne
  show ?thesis by blast
qed


text \<open>
  C3, as the code has it. The controller of a table with no rows is constructed without
  an exception and has no row that could carry the selected visual state. After any
  sequence of navigation and marking calls, no exception has been raised and the
  controller is the constructed one but for \<open>selectedIndex\<close>, which is \<open>0\<close> or \<open>-1\<close>:
  every marking call leaves the controller unchanged, moving up sets \<open>selectedIndex\<close> to
  \<open>0\<close> and moving down sets it to \<open>-1\<close>.
\<close>

theorem empty_table_calls:
  assumes "list_all navigate_or_mark cs"
  shows "\<exists>c0 s. TableNavigator (Some []) selCls mkCls = Inr c0 \<and> rows c0 = [] \<and>
      selectedIndex c0 = Num 0 \<and> lastMarkedIndex c0 = - 1 \<and>
      run cs c0 = Inr s \<and> s = c0\<lparr>selectedIndex := selectedIndex s\<rparr> \<and>
      (selectedIndex s = Num 0 \<or> selectedIndex s = Num (- 1)) \<and>
      (\<forall>shift ctrl. handleMarking shift ctrl s = Inr s) \<and>
      handleNavigation ''ArrowUp'' s = Inr (s\<lparr>selectedIndex := Num 0\<rparr>) \<and>
      handleNavigation ''ArrowDown'' s = Inr (s\<lparr>selectedIndex := Num (- 1)\<rparr>)"
proof -
  define c0 where "c0 = \<lparr>rows = [], selectedIndex = Num 0, lastMarkedIndex = - 1,
      selectedCls = str_split CHR '' '' selCls, markedCls = str_split CHR '' '' mkCls\<rparr>"
  have c0: "TableNavigator (Some []) selCls mkCls = Inr c0" "rows c0 = []"
    "selectedIndex c0 = Num 0" "lastMarkedIndex c0 = - 1"
    by (simp_all add: c0_def TableNavigator_empty)
  have "selectedIndex c0 = Num 0 \<or> selectedIndex c0 = Num (- 1)"
    using c0(3) by simp
  from run_empty [OF c0(2) c0(4) this assms] obtain s where
    s: "run cs c0 = Inr s" "s = c0\<lparr>selectedIndex := selectedIndex s\<rparr>"
      "selectedIndex s = Num 0 \<or> selectedIndex s = Num (- 1)"
    by blast
  have e: "rows s = []" "lastMarkedIndex s = - 1"
    using s(2) c0(2,4) by (metis controller.select_convs controller.surjective
        controller.update_convs(2))+
  have "\<forall>shift ctrl. handleMarking shift ctrl s = Inr s"
    using e by (simp add: handleMarking_empty)
  then show ?thesis
    using c0 s handleNavigation_empty [OF e(1) s(3)] by blast
qed

theorem empty_table_calls_witness:
  "list_all navigate_or_mark [Navigate ''ArrowDown'', Mark True False, Navigate ''ArrowUp''] \<and>
   (\<exists>c0 s. TableNavigator (Some []) ''sel'' ''mk'' = Inr c0 \<and> rows c0 = [] \<and>
      selectedIndex c0 = Num 0 \<and> lastMarkedIndex c0 = - 1 \<and>
      run [Navigate ''ArrowDown'', Mark True False, Navigate ''ArrowUp''] c0 = Inr s \<and>
      s = c0\<lparr>selectedIndex := selectedIndex s\<rparr> \<and>
      (selectedIndex s = Num 0 \<or> selectedIndex s = Num (- 1)) \<and>
      (\<forall>shift ctrl. handleMarking shift ctrl s = Inr s) \<and>
      handleNavigation ''ArrowUp'' s = Inr (s\<lparr>selectedIndex := Num 0\<rparr>) \<and>
      handleNavigation ''ArrowDown'' s = Inr (s\<lparr>selectedIndex := Num (- 1)\<rparr>))"
proof -
  have h: "list_all navigate_or_mark [Navigate ''ArrowDown'', Mark True False, Navigate ''ArrowUp'']"
    by (simp add: navigate_or_mark_def)
  from empty_table_calls [OF h, of "''sel''" "''mk''"] h show ?thesis
    by blast
qed

text \<open>
  C3 as stated fails: on the controller of an empty table, moving down changes
  \<open>selectedIndex\<close> from \<open>0\<close> to \<open>-1\<close>.
\<close>

theorem empty_table_navigation_counterexample:
  "TableNavigator (Some []) ''sel'' ''mk'' = Inr no_rows \<and>
   selectedIndex no_rows = Num 0 \<and>
   handleNavigation ''ArrowDown'' no_rows = Inr (no_rows\<lparr>selectedIndex := Num (- 1)\<rparr>) \<and>
   handleNavigation ''ArrowDown'' no_rows \<noteq> Inr no_rows"
  by (simp add: TableNavigator_empty no_rows_def handleNavigation_def updateNavigation_empty)

text \<open>
  C2, as the code has it. When \<open>selectedIndex\<close> points at no row, marking in toggle mode
  returns the controller unchanged, and so does marking in range mode when there is no
  anchor; marking in single mode raises nothing and changes no state of the controller,
  but clears the marked flag and removes the marked classes on every row.
\<close>

theorem marking_without_row:
  assumes "well_formed s" and "at_index (rows s) (selectedIndex s) = None"
  shows "handleMarking False True s = Inr s \<and>
     (lastMarkedIndex s = - 1 \<longrightarrow> handleMarking True ctrl s = Inr s) \<and>
     handleMarking False False s =
       Inr (s\<lparr>rows := map (\<lambda>r. drop_classes (markedCls s) (r\<lparr>dataset_marked := ''false''\<rparr>))
                            (rows s)\<rparr>)"
proof -
  have tok: "rows s \<noteq> [] \<longrightarrow> valid_tokens (markedCls s)"
    using assms(1) by (simp add: well_formed_def)
  show ?thesis
    using assms(2)
    by (simp add: handleMarking_def markRange_def markSingle_def toggleMark_def
        clearAllMarks_eq [OF tok])
qed

theorem marking_without_row_witness:
  "well_formed off_row \<and> at_index (rows off_row) (selectedIndex off_row) = None \<and>
   handleMarking False True off_row = Inr off_row \<and>
   handleMarking False False off_row =
     Inr (off_row\<lparr>rows := map (\<lambda>r. drop_classes (markedCls off_row) (r\<lparr>dataset_marked := ''false''\<rparr>))
                                (rows off_row)\<rparr>) \<and>
   well_formed deselected_rows \<and>
   at_index (rows deselected_rows) (selectedIndex deselected_rows) = None \<and>
   lastMarkedIndex deselected_rows = - 1 \<and>
   handleMarking True False deselected_rows = Inr deselected_rows"
proof -
  have h: "at_index (rows off_row) (selectedIndex off_row) = None"
    by (simp add: off_row_def at_index_def)
  have h': "at_index (rows deselected_rows) (selectedIndex deselected_rows) = None"
    "lastMarkedIndex deselected_rows = - 1"
    by (simp_all add: deselected_rows_def at_index_def)
  from marking_without_row [OF off_row_well_formed h, of False]
    marking_without_row [OF deselected_rows_well_formed h'(1), of False]
    off_row_well_formed deselected_rows_well_formed h h'
  show ?thesis by blast
qed

text \<open>
  C2 as stated fails: with row 0 marked and \<open>selectedIndex\<close> at no row (after a click on
  a row of the table's head), marking in single mode unmarks row 0; and marking in range
  mode, the anchor being row 0, raises \<open>TypeError\<close>.
\<close>

theorem marking_without_row_counterexample:
  "run [Mark False False,
        Click \<lparr>shiftKey = False, ctrlKey = True, metaKey = False, closest_tr = Some NaN\<rparr>]
     three_rows = Inr off_row \<and>
   at_index (rows off_row) (selectedIndex off_row) = None \<and>
   dataset_marked (rows off_row ! 0) = ''true'' \<and>
   handleMarking False False off_row =
     Inr (off_row\<lparr>rows := (rows off_row)
            [0 := \<lparr>dataset_index = 0, dataset_marked = ''false'', tabIndex = - 1,
                    classList = []\<rparr>]\<rparr>) \<and>
   handleMarking False False off_row \<noteq> Inr off_row \<and>
   handleMarking True False off_row = Inl TypeError"
proof -
  have "handleMarking False False off_row =
     Inr (off_row\<lparr>rows := (rows off_row)
            [0 := \<lparr>dataset_index = 0, dataset_marked = ''false'', tabIndex = - 1,
                    classList = []\<rparr>]\<rparr>)"
    by code_simp
  moreover have "handleMarking False False off_row \<noteq> Inr off_row"
    by code_simp
  moreover have "handleMarking True False off_row = Inl TypeError"
    by code_simp
  moreover have "at_index (rows off_row) (selectedIndex off_row) = None"
    "dataset_marked (rows off_row ! 0) = ''true''"
    by (simp_all add: off_row_def at_index_def)
  ultimately show ?thesis
    using off_row_reached by simp
qed

text \<open>
  C4, as the code has it. Let the selected and the marked class lists share no class
  name, and let every click since construction have landed on no row or on a row of the
  controller. Then after construction and after every key press, navigation call,
  marking call and click of such a history, no exception has been raised and the
  selected visual state is exclusive: the row at \<open>selectedIndex\<close> carries every selected
  class and every other row carries none of them, or the table has no rows.
\<close>

theorem selection_stays_exclusive:
  assumes "TableNavigator (Some rs) selCls mkCls = Inr c0"
    and "share_no_class (str_split CHR '' '' selCls) (str_split CHR '' '' mkCls)"
    and "list_all (lands_on_row (length rs)) cs"
  shows "\<exists>s. run cs c0 = Inr s \<and> length (rows s) = length rs \<and> exclusive_selection s"
proof -
  from TableNavigator_constructed [OF assms(1)] have
    c0: "well_formed c0" "length (rows c0) = length rs"
      "selectedCls c0 = str_split CHR '' '' selCls" "markedCls c0 = str_split CHR '' '' mkCls"
    by simp_all
  have dj: "share_no_class (selectedCls c0) (markedCls c0)"
    using assms(2) c0(3,4) by simp
  have cs: "list_all (lands_on_row (length (rows c0))) cs"
    using assms(3) c0(2) by simp
  from run_steps [OF c0(1) constructed_exclusive [OF assms(1)] dj cs] c0(2)
  show ?thesis by auto
qed


theorem selection_stays_exclusive_witness:
  "TableNavigator (Some [plain_row, plain_row, plain_row]) ''sel'' ''mk'' = Inr three_rows \<and>
   share_no_class (str_split CHR '' '' ''sel'') (str_split CHR '' '' ''mk'') \<and>
   list_all (lands_on_row (length [plain_row, plain_row, plain_row]))
     [Navigate ''ArrowDown'', Mark False True,
      Click \<lparr>shiftKey = True, ctrlKey = False, metaKey = False, closest_tr = Some (Num 2)\<rparr>,
      KeyDown \<lparr>shiftKey = False, ctrlKey = False, metaKey = False, key = '' ''\<rparr>] \<and>
   (\<exists>s. run [Navigate ''ArrowDown'', Mark False True,
               Click \<lparr>shiftKey = True, ctrlKey = False, metaKey = False, closest_tr = Some (Num 2)\<rparr>,
               KeyDown \<lparr>shiftKey = False, ctrlKey = False, metaKey = False, key = '' ''\<rparr>]
            three_rows = Inr s \<and>
        length (rows s) = length [plain_row, plain_row, plain_row] \<and> exclusive_selection s)"
proof -
  have dj: "share_no_class (str_split CHR '' '' ''sel'') (str_split CHR '' '' ''mk'')"
    by code_simp
  have on: "list_all (lands_on_row (length [plain_row, plain_row, plain_row]))
     [Navigate ''ArrowDown'', Mark False True,
      Click \<lparr>shiftKey = True, ctrlKey = False, metaKey = False, closest_tr = Some (Num 2)\<rparr>,
      KeyDown \<lparr>shiftKey = False, ctrlKey = False, metaKey = False, key = '' ''\<rparr>]"
    by (simp add: lands_on_row_def in_rows_def)
  from selection_stays_exclusive [OF three_rows_constructed dj on] three_rows_constructed dj on
  show ?thesis by blast
qed

text \<open>
  C4 as stated fails in two ways. A click on a row of the table's head stores \<open>NaN\<close> in
  \<open>selectedIndex\<close> and leaves three rows of which none carries the selected class. And
  with the same class name for both visual states, unmarking the selected row takes its
  selected class away.
\<close>

theorem selection_lost_counterexample:
  "TableNavigator (Some [plain_row, plain_row, plain_row]) ''sel'' ''mk'' = Inr three_rows \<and>
   run [Click \<lparr>shiftKey = False, ctrlKey = False, metaKey = False, closest_tr = Some NaN\<rparr>]
     three_rows = Inr deselected_rows \<and>
   rows deselected_rows \<noteq> [] \<and>
   \<not> exclusive_selection deselected_rows \<and>
   TableNavigator (Some [plain_row]) ''hl'' ''hl'' = Inr shared_class_start \<and>
   run [Mark False True, Mark False True] shared_class_start = Inr shared_class_end \<and>
   rows shared_class_end \<noteq> [] \<and>
   \<not> exclusive_selection shared_class_end"
proof -
  have "\<not> exclusive_selection deselected_rows"
    by (simp add: exclusive_selection_def deselected_rows_def at_index_def)
  moreover have "\<not> exclusive_selection shared_class_end"
    by (simp add: exclusive_selection_def shared_class_end_def at_index_def has_classes_def)
  moreover have "rows deselected_rows \<noteq> []" "rows shared_class_end \<noteq> []"
    by (simp_all add: deselected_rows_def shared_class_end_def)
  ultimately show ?thesis
    using three_rows_constructed deselected_rows_reached shared_class_constructed
      shared_class_end_reached
    by simp
qed

text \<open>
  C8. A press of the space key with only the meta modifier held marks in single mode,
  not in toggle mode: \<open>handleKeyDown\<close> passes \<open>ctrlKey\<close> alone, while \<open>handleClick\<close> passes
  \<open>ctrlKey || metaKey\<close>. With row 0 marked and row 2 selected, the key press unmarks
  row 0 where a toggle, and the click with the same modifier, keep it marked.
\<close>

theorem keydown_ignores_meta:
  "handleKeyDown \<lparr>shiftKey = False, ctrlKey = False, metaKey = True, key = '' ''\<rparr> anchored_rows
     = handleMarking False False anchored_rows \<and>
   handleClick \<lparr>shiftKey = False, ctrlKey = False, metaKey = True, closest_tr = Some (Num 2)\<rparr>
       anchored_rows
     = handleMarking False True anchored_rows \<and>
   handleMarking False False anchored_rows =
     Inr (anchored_rows
           \<lparr>rows :=
              [\<lparr>dataset_index = 0, dataset_marked = ''false'', tabIndex = - 1, classList = []\<rparr>,
               \<lparr>dataset_index = 1, dataset_marked = ''false'', tabIndex = - 1, classList = []\<rparr>,
               \<lparr>dataset_index = 2, dataset_marked = ''true'', tabIndex = - 1,
                  classList = [''sel'', ''mk'']\<rparr>],
            lastMarkedIndex := 2\<rparr>) \<and>
   handleMarking False True anchored_rows =
     Inr (anchored_rows
           \<lparr>rows :=
              [\<lparr>dataset_index = 0, dataset_marked = ''true'', tabIndex = - 1, classList = [''mk'']\<rparr>,
               \<lparr>dataset_index = 1, dataset_marked = ''false'', tabIndex = - 1, classList = []\<rparr>,
               \<lparr>dataset_index = 2, dataset_marked = ''true'', tabIndex = - 1,
                  classList = [''sel'', ''mk'']\<rparr>],
            lastMarkedIndex := 2\<rparr>) \<and>
   handleMarking False False anchored_rows \<noteq> handleMarking False True anchored_rows"
proof -
  have key: "handleKeyDown \<lparr>shiftKey = False, ctrlKey = False, metaKey = True, key = '' ''\<rparr>
      anchored_rows = handleMarking False False anchored_rows"
    by (simp add: handleKeyDown_def)
  have click: "handleClick
      \<lparr>shiftKey = False, ctrlKey = False, metaKey = True, closest_tr = Some (Num 2)\<rparr>
      anchored_rows = handleMarking False True anchored_rows"
    by code_simp
  have single: "handleMarking False False anchored_rows =
     Inr (anchored_rows
           \<lparr>rows :=
              [\<lparr>dataset_index = 0, dataset_marked = ''false'', tabIndex = - 1, classList = []\<rparr>,
               \<lparr>dataset_index = 1, dataset_marked = ''false'', tabIndex = - 1, classList = []\<rparr>,
               \<lparr>dataset_index = 2, dataset_marked = ''true'', tabIndex = - 1,
                  classList = [''sel'', ''mk'']\<rparr>],
            lastMarkedIndex := 2\<rparr>)"
    by code_simp
  have toggle: "handleMarking False True anchored_rows =
     Inr (anchored_rows
           \<lparr>rows :=
              [\<lparr>dataset_index = 0, dataset_marked = ''true'', tabIndex = - 1, classList = [''mk'']\<rparr>,
               \<lparr>dataset_index = 1, dataset_marked = ''false'', tabIndex = - 1, classList = []\<rparr>,
               \<lparr>dataset_index = 2, dataset_marked = ''true'', tabIndex = - 1,
                  classList = [''sel'', ''mk'']\<rparr>],
            lastMarkedIndex := 2\<rparr>)"
    by code_simp
  have "handleMarking False False anchored_rows \<noteq> handleMarking False True anchored_rows"
    by code_simp
  with key click single toggle show ?thesis
    by (intro conjI)
qed

text \<open>
  C9. Whenever no anchor exists (\<open>lastMarkedIndex = -1\<close>), marking in range mode has
  exactly the effect of marking in toggle mode on the currently selected row: the same
  exception or the same controller state and rows.
\<close>

theorem range_without_anchor_is_toggle:
  "lastMarkedIndex s = - 1 \<Longrightarrow> handleMarking True ctrl s = handleMarking False True s"
  by (simp add: handleMarking_def markRange_def)

theorem range_without_anchor_is_toggle_witness:
  "lastMarkedIndex three_rows = - 1 \<and>
   handleMarking True False three_rows = handleMarking False True three_rows \<and>
   handleMarking False True three_rows =
     Inr (three_rows
           \<lparr>rows := (rows three_rows)
              [0 := \<lparr>dataset_index = 0, dataset_marked = ''true'', tabIndex = - 1,
                      classList = [''sel'', ''mk'']\<rparr>],
            lastMarkedIndex := 0\<rparr>)"
proof -
  have anchor: "lastMarkedIndex three_rows = - 1"
    by (simp add: three_rows_def)
  have "handleMarking False True three_rows =
     Inr (three_rows
           \<lparr>rows := (rows three_rows)
              [0 := \<lparr>dataset_index = 0, dataset_marked = ''true'', tabIndex = - 1,
                      classList = [''sel'', ''mk'']\<rparr>],
            lastMarkedIndex := 0\<rparr>)"
    by code_simp
  with anchor range_without_anchor_is_toggle [OF anchor, of False] show ?thesis
    by simp
qed

end
